theory Spec2Isabelle
  imports Main
begin

section \<open>The BrainRot interpreter: tokens\<close>

text \<open>
  The interpreter is a pipeline of three classes (\<open>BrainRotTokenizer\<close>, \<open>BrainRotParser\<close>,
  \<open>BrainRotInterpreter\<close>) behind one entry point, \<open>executeBrainRot\<close>. Each class is
  embedded as a record of its mutable fields, each method as a function that takes the
  record and returns its result together with the updated record.

  Source strings are \<open>string\<close>s (lists of 8-bit characters): the tokenizer compares
  single characters only, so a source text is covered as long as each of its characters
  is one \<open>char\<close>.
\<close>

datatype token_type = KEYWORD | IDENTIFIER | NUMBER | STRING | OPERATOR | DELIMITER | EOF

record token =
  ttype :: token_type
  tvalue :: string
  tline :: nat
  tcolumn :: nat

section \<open>BrainRotTokenizer\<close>

record tokenizer =
  input :: string
  position :: nat
  line :: nat
  column :: nat

definition new_tokenizer :: "string \<Rightarrow> tokenizer" where
  "new_tokenizer src = \<lparr>input = src, position = 0, line = 1, column = 1\<rparr>"

definition keyword_table :: "(string \<times> string) list" where
  "keyword_table =
    [(''mold'', ''MOLD''), (''rott'', ''ROTT''), (''spin'', ''SPIN''), (''ifrot'', ''IFROT''),
     (''elsed'', ''ELSED''), (''fnrot'', ''FNROT''), (''androt'', ''ANDROT''),
     (''orrot'', ''ORROT''), (''notrot'', ''NOTROT''), (''retrot'', ''RETROT'')]"

text \<open>
  \<open>peek\<close> returns the character at \<open>position + offset\<close>, or the empty string past the end
  of the input; the empty string is \<open>None\<close> here. Every comparison of the source with a
  one-character literal is false for the empty string.
\<close>

definition peek :: "tokenizer \<Rightarrow> nat \<Rightarrow> char option" where
  "peek t offset =
    (let pos = position t + offset
     in if pos < length (input t) then Some (input t ! pos) else None)"

definition advance :: "tokenizer \<Rightarrow> tokenizer" where
  "advance t =
    (if position t < length (input t) then
       (if input t ! position t = CHR 0x0A
        then t\<lparr>line := line t + 1, column := 1, position := position t + 1\<rparr>
        else t\<lparr>column := column t + 1, position := position t + 1\<rparr>)
     else t)"

text \<open>
  The source orders one-character strings with \<open>>=\<close> and \<open><=\<close>, that is by character
  code: \<open>between lo c hi\<close> is \<open>c >= lo && c <= hi\<close>.
\<close>

definition between :: "char \<Rightarrow> char \<Rightarrow> char \<Rightarrow> bool" where
  "between lo c hi \<longleftrightarrow> (of_char lo :: nat) \<le> of_char c \<and> (of_char c :: nat) \<le> of_char hi"

definition is_digit :: "char \<Rightarrow> bool" where
  "is_digit c \<longleftrightarrow> between (CHR ''0'') c (CHR ''9'')"

definition is_alpha :: "char \<Rightarrow> bool" where
  "is_alpha c \<longleftrightarrow>
     between (CHR ''a'') c (CHR ''z'') \<or> between (CHR ''A'') c (CHR ''Z'') \<or> c = CHR ''_''"

definition is_alnum :: "char \<Rightarrow> bool" where
  "is_alnum c \<longleftrightarrow> is_alpha c \<or> is_digit c"

text \<open>\<open>skipWhitespace\<close>: advance over space, tab, newline and carriage return.\<close>

function skipWhitespace :: "tokenizer \<Rightarrow> tokenizer" where
  "skipWhitespace t =
    (if position t < length (input t)
        \<and> input t ! position t \<in> set [CHR '' '', CHR 0x09, CHR 0x0A, CHR 0x0D]
     then skipWhitespace (advance t) else t)"
  by pat_completeness auto
termination
  by (relation "measure (\<lambda>t. length (input t) - position t)") (auto simp: advance_def)

text \<open>\<open>skipComment\<close>: advance up to, and not over, the next newline.\<close>

function skipComment :: "tokenizer \<Rightarrow> tokenizer" where
  "skipComment t =
    (if position t < length (input t) \<and> input t ! position t \<noteq> CHR 0x0A
     then skipComment (advance t) else t)"
  by pat_completeness auto
termination
  by (relation "measure (\<lambda>t. length (input t) - position t)") (auto simp: advance_def)

text \<open>
  \<open>readNumber\<close>: digits with at most one dot. The loop carries the text read so far and
  the flag \<open>hasDot\<close>.
\<close>

function readNumber_loop :: "tokenizer \<Rightarrow> string \<Rightarrow> bool \<Rightarrow> string \<times> tokenizer" where
  "readNumber_loop t val hasDot =
    (if position t < length (input t) then
       (case peek t 0 of
          None \<Rightarrow> (val, t)
        | Some c \<Rightarrow>
            if is_digit c then readNumber_loop (advance t) (val @ [c]) hasDot
            else if c = CHR ''.'' \<and> \<not> hasDot then readNumber_loop (advance t) (val @ [c]) True
            else (val, t))
     else (val, t))"
  by pat_completeness auto
termination
  by (relation "measure (\<lambda>(t, val, hasDot). length (input t) - position t)")
     (auto simp: advance_def)

definition readNumber :: "tokenizer \<Rightarrow> nat \<Rightarrow> nat \<Rightarrow> token \<times> tokenizer" where
  "readNumber t ln col =
    (let r = readNumber_loop t [] False
     in (\<lparr>ttype = NUMBER, tvalue = fst r, tline = ln, tcolumn = col\<rparr>, snd r))"

text \<open>
  \<open>readString\<close>: the opening quote is skipped, then characters are collected up to the
  matching quote or the end of the input. After a backslash the next character is taken
  through the escape table; at the end of the input that character is the empty string
  and nothing is appended.
\<close>

definition unescape :: "char \<Rightarrow> char option \<Rightarrow> string" where
  "unescape quote escaped =
    (case escaped of
       None \<Rightarrow> []
     | Some e \<Rightarrow>
         if e = CHR ''n'' then [CHR 0x0A]
         else if e = CHR ''t'' then [CHR 0x09]
         else if e = CHR ''r'' then [CHR 0x0D]
         else if e = CHR 0x5C then [CHR 0x5C]
         else if e = quote then [quote]
         else [e])"

function readString_loop :: "tokenizer \<Rightarrow> char \<Rightarrow> string \<Rightarrow> string \<times> tokenizer" where
  "readString_loop t quote val =
    (if position t < length (input t) \<and> peek t 0 \<noteq> Some quote then
       (if peek t 0 = Some (CHR 0x5C) then
          (let t1 = advance t
           in readString_loop (advance t1) quote (val @ unescape quote (peek t1 0)))
        else readString_loop (advance t) quote (val @ [input t ! position t]))
     else (val, t))"
  by pat_completeness auto
termination
  by (relation "measure (\<lambda>(t, quote, val). length (input t) - position t)")
     (auto simp: advance_def)

definition readString :: "tokenizer \<Rightarrow> nat \<Rightarrow> nat \<Rightarrow> token \<times> tokenizer" where
  "readString t ln col =
    (case peek t 0 of
       None \<Rightarrow> (\<lparr>ttype = STRING, tvalue = [], tline = ln, tcolumn = col\<rparr>, t)
     | Some quote \<Rightarrow>
        (let r = readString_loop (advance t) quote []
         in (\<lparr>ttype = STRING, tvalue = fst r, tline = ln, tcolumn = col\<rparr>,
             if peek (snd r) 0 = Some quote then advance (snd r) else snd r)))"

text \<open>
  \<open>readIdentifier\<close>: letters, digits and underscores. The text is looked up, folded to
  lower case, in the keyword table; a keyword token carries the table's name for it, an
  identifier token the text as written.
\<close>

function readIdentifier_loop :: "tokenizer \<Rightarrow> string \<Rightarrow> string \<times> tokenizer" where
  "readIdentifier_loop t val =
    (if position t < length (input t) then
       (case peek t 0 of
          None \<Rightarrow> (val, t)
        | Some c \<Rightarrow>
            if is_alnum c then readIdentifier_loop (advance t) (val @ [c]) else (val, t))
     else (val, t))"
  by pat_completeness auto
termination
  by (relation "measure (\<lambda>(t, val). length (input t) - position t)")
     (auto simp: advance_def)

definition toLowerCase :: "string \<Rightarrow> string" where
  "toLowerCase s =
    map (\<lambda>c. if between (CHR ''A'') c (CHR ''Z'') then char_of (of_char c + (32::nat)) else c) s"

definition readIdentifier :: "tokenizer \<Rightarrow> nat \<Rightarrow> nat \<Rightarrow> token \<times> tokenizer" where
  "readIdentifier t ln col =
    (let r = readIdentifier_loop t []
     in case map_of keyword_table (toLowerCase (fst r)) of
          Some keyword \<Rightarrow>
            (\<lparr>ttype = KEYWORD, tvalue = keyword, tline = ln, tcolumn = col\<rparr>, snd r)
        | None \<Rightarrow>
            (\<lparr>ttype = IDENTIFIER, tvalue = fst r, tline = ln, tcolumn = col\<rparr>, snd r))"

text \<open>
  \<open>nextToken\<close>. The operator table is a plain object indexed by the character; a
  character that is not a key of it yields \<open>undefined\<close>, which is \<open>None\<close> here. The
  result is the token, or \<open>null\<close> for a character that starts no token, and the
  tokenizer after the characters consumed.
\<close>

definition operators :: "(char \<times> string) list" where
  "operators =
    [(CHR ''+'', ''PLUS''), (CHR ''-'', ''MINUS''), (CHR ''*'', ''MULTIPLY''),
     (CHR ''/'', ''DIVIDE''), (CHR ''='', ''ASSIGN''), (CHR ''>'', ''GT''), (CHR ''<'', ''LT''),
     (CHR ''!'', ''NOT''), (CHR ''('', ''LPAREN''), (CHR '')'', ''RPAREN''),
     (CHR ''{'', ''LBRACE''), (CHR ''}'', ''RBRACE''), (CHR '';'', ''SEMICOLON''),
     (CHR '','', ''COMMA'')]"

fun str_includes :: "string \<Rightarrow> string \<Rightarrow> bool" where
  "str_includes [] sub \<longleftrightarrow> sub = []"
| "str_includes (c # cs) sub \<longleftrightarrow> take (length sub) (c # cs) = sub \<or> str_includes cs sub"

definition nextToken :: "tokenizer \<Rightarrow> token option \<times> tokenizer" where
  "nextToken t =
    (let ln = line t; col = column t in
     case peek t 0 of
       None \<Rightarrow> (None, advance t)
     | Some c \<Rightarrow>
         if is_digit c then apfst Some (readNumber t ln col)
         else if c = CHR 0x22 \<or> c = CHR 0x27 then apfst Some (readString t ln col)
         else if is_alpha c then apfst Some (readIdentifier t ln col)
         else if c = CHR ''='' \<and> peek t 1 = Some (CHR ''='') then
           (Some \<lparr>ttype = OPERATOR, tvalue = ''EQ'', tline = ln, tcolumn = col\<rparr>,
            advance (advance t))
         else if c = CHR ''!'' \<and> peek t 1 = Some (CHR ''='') then
           (Some \<lparr>ttype = OPERATOR, tvalue = ''NEQ'', tline = ln, tcolumn = col\<rparr>,
            advance (advance t))
         else
           (case map_of operators c of
              Some name \<Rightarrow>
                (Some \<lparr>ttype =
                         (if str_includes name ''PAREN'' \<or> str_includes name ''BRACE''
                             \<or> name = ''SEMICOLON'' \<or> name = ''COMMA''
                          then DELIMITER else OPERATOR),
                       tvalue = name, tline = ln, tcolumn = col\<rparr>,
                 advance t)
            | None \<Rightarrow> (None, advance t)))"

subsection \<open>Every tokenizer method moves forward over the same input\<close>

lemma advance_input [simp]: "input (advance t) = input t"
  by (simp add: advance_def)

lemma advance_position: "position t \<le> position (advance t)"
  by (simp add: advance_def)

lemma advance_position_lt:
  "position t < length (input t) \<Longrightarrow> position (advance t) = position t + 1"
  by (simp add: advance_def)

declare skipWhitespace.simps [simp del] skipComment.simps [simp del]
  readNumber_loop.simps [simp del] readString_loop.simps [simp del]
  readIdentifier_loop.simps [simp del]

lemma skipWhitespace_fwd:
  "input (skipWhitespace t) = input t \<and> position t \<le> position (skipWhitespace t)"
proof (induction t rule: skipWhitespace.induct)
  case (1 t)
  show ?case
  proof (cases "position t < length (input t)
        \<and> input t ! position t \<in> set [CHR '' '', CHR 0x09, CHR 0x0A, CHR 0x0D]")
    case True
    with "1" have "input (skipWhitespace (advance t)) = input (advance t)"
      and "position (advance t) \<le> position (skipWhitespace (advance t))"
      by blast+
    moreover have "skipWhitespace t = skipWhitespace (advance t)"
      using True by (subst skipWhitespace.simps) simp
    ultimately show ?thesis
      using advance_position [of t] by simp
  next
    case False
    then have "skipWhitespace t = t"
      by (subst skipWhitespace.simps) auto
    then show ?thesis by simp
  qed
qed

lemma skipComment_fwd:
  "input (skipComment t) = input t \<and> position t \<le> position (skipComment t)"
proof (induction t rule: skipComment.induct)
  case (1 t)
  show ?case
  proof (cases "position t < length (input t) \<and> input t ! position t \<noteq> CHR 0x0A")
    case True
    with "1" have "input (skipComment (advance t)) = input (advance t)"
      and "position (advance t) \<le> position (skipComment (advance t))"
      by blast+
    moreover have "skipComment t = skipComment (advance t)"
      using True by (subst skipComment.simps) simp
    ultimately show ?thesis
      using advance_position [of t] by simp
  next
    case False
    then have "skipComment t = t"
      by (subst skipComment.simps) auto
    then show ?thesis by simp
  qed
qed


lemma readNumber_loop_fwd:
  "input (snd (readNumber_loop t val hasDot)) = input t
   \<and> position t \<le> position (snd (readNumber_loop t val hasDot))"
proof (induction t val hasDot rule: readNumber_loop.induct)
  case (1 t val hasDot)
  note unf = readNumber_loop.simps [of t val hasDot]
  show ?case
    unfolding unf using "1.IH" advance_position [of t]
    by (auto split: option.splits intro: le_trans)
qed

lemma readIdentifier_loop_fwd:
  "input (snd (readIdentifier_loop t val)) = input t
   \<and> position t \<le> position (snd (readIdentifier_loop t val))"
proof (induction t val rule: readIdentifier_loop.induct)
  case (1 t val)
  note unf = readIdentifier_loop.simps [of t val]
  show ?case
    unfolding unf using "1.IH" advance_position [of t]
    by (auto split: option.splits intro: le_trans)
qed

lemma readString_loop_fwd:
  "input (snd (readString_loop t quote val)) = input t
   \<and> position t \<le> position (snd (readString_loop t quote val))"
proof (induction t quote val rule: readString_loop.induct)
  case (1 t quote val)
  note unf = readString_loop.simps [of t quote val]
  show ?case
    unfolding unf using "1.IH" advance_position [of t] advance_position [of "advance t"]
    by (auto simp: Let_def intro: le_trans)
qed




lemma readNumber_fwd:
  "input (snd (readNumber t ln col)) = input t"
  using readNumber_loop_fwd [of t "[]" False]
  by (simp add: readNumber_def Let_def)

lemma readIdentifier_fwd:
  "input (snd (readIdentifier t ln col)) = input t"
  using readIdentifier_loop_fwd [of t "[]"]
  by (simp add: readIdentifier_def Let_def split: option.splits)

lemma readString_fwd:
  "input (snd (readString t ln col)) = input t"
  using readString_loop_fwd [of "advance t"]
  by (simp add: readString_def Let_def split: option.splits)

lemma nextToken_input: "input (snd (nextToken t)) = input t"
  by (simp add: nextToken_def Let_def readNumber_fwd readIdentifier_fwd readString_fwd
      split: option.splits)

lemma readNumber_step:
  assumes "position t < length (input t)" "peek t 0 = Some c" "is_digit c"
  shows "position t < position (snd (readNumber t ln col))"
proof -
  have "readNumber_loop t [] False = readNumber_loop (advance t) ([] @ [c]) False"
    using assms by (subst readNumber_loop.simps) simp
  then show ?thesis
    using readNumber_loop_fwd [of "advance t" "[] @ [c]" False]
      advance_position_lt [OF assms(1)]
    by (simp add: readNumber_def Let_def)
qed

lemma readIdentifier_step:
  assumes "position t < length (input t)" "peek t 0 = Some c" "is_alpha c"
  shows "position t < position (snd (readIdentifier t ln col))"
proof -
  have "readIdentifier_loop t [] = readIdentifier_loop (advance t) ([] @ [c])"
    using assms by (subst readIdentifier_loop.simps) (simp add: is_alnum_def)
  then show ?thesis
    using readIdentifier_loop_fwd [of "advance t" "[] @ [c]"]
      advance_position_lt [OF assms(1)]
    by (simp add: readIdentifier_def Let_def split: option.splits)
qed

lemma readString_step:
  assumes "position t < length (input t)"
  shows "position t < position (snd (readString t ln col))"
proof -
  from assms obtain q where q: "peek t 0 = Some q"
    by (simp add: peek_def)
  let ?r = "readString_loop (advance t) q []"
  have "position t < position (snd ?r)"
    using readString_loop_fwd [of "advance t" q "[]"] advance_position_lt [OF assms]
    by simp
  moreover have "position (snd ?r) \<le> position (advance (snd ?r))"
    by (rule advance_position)
  ultimately show ?thesis
    using q by (simp add: readString_def Let_def)
qed

lemma nextToken_position:
  assumes "position t < length (input t)"
  shows "position t < position (snd (nextToken t))"
proof -
  from assms obtain c where c: "peek t 0 = Some c"
    by (simp add: peek_def)
  have adv: "position t < position (advance t)"
    using advance_position_lt [OF assms] by simp
  have adv2: "position t < position (advance (advance t))"
    using adv advance_position [of "advance t"] by simp
  show ?thesis
    using c adv adv2 readNumber_step [OF assms c] readIdentifier_step [OF assms c]
      readString_step [OF assms]
    by (simp add: nextToken_def Let_def split: option.splits)
qed

lemma skipComment_step:
  "position t < length (input t) \<Longrightarrow> input t ! position t \<noteq> CHR 0x0A \<Longrightarrow>
     position t < position (skipComment t)"
  using skipComment_fwd [of "advance t"] advance_position_lt [of t]
  by (subst skipComment.simps) simp

subsection \<open>The main loop\<close>

definition at_comment :: "tokenizer \<Rightarrow> bool" where
  "at_comment t \<longleftrightarrow>
     peek t 0 = Some (CHR ''#'') \<and> peek t 1 = Some (CHR ''r'')
     \<and> peek t 2 = Some (CHR ''o'') \<and> peek t 3 = Some (CHR ''t'')"

function tokenize_loop :: "tokenizer \<Rightarrow> token list \<Rightarrow> token list \<times> tokenizer" where
  "tokenize_loop t tokens =
    (if position t < length (input t) then
       (let t1 = skipWhitespace t in
        if position t1 \<ge> length (input t1) then (tokens, t1)
        else if at_comment t1 then tokenize_loop (skipComment t1) tokens
        else
          (let r = nextToken t1
           in tokenize_loop (snd r) (case fst r of None \<Rightarrow> tokens | Some tok \<Rightarrow> tokens @ [tok])))
     else (tokens, t))"
  by pat_completeness auto
termination
proof (relation "measure (\<lambda>(t, tokens). length (input t) - position t)", goal_cases)
  case 1
  show ?case by simp
next
  case (2 t tokens t1)
  have inp: "input t1 = input t" and le: "position t \<le> position t1"
    using 2 skipWhitespace_fwd [of t] by simp_all
  have "position t1 < length (input t1)" "input t1 ! position t1 \<noteq> CHR 0x0A"
    using 2 by (auto simp: at_comment_def peek_def)
  then have "position t1 < position (skipComment t1)"
    by (rule skipComment_step)
  with le have "position t < position (skipComment t1)"
    by simp
  with 2(1) show ?case
    by (simp add: skipComment_fwd inp)
next
  case (3 t tokens t1 r)
  have inp: "input t1 = input t" and le: "position t \<le> position t1"
    using 3 skipWhitespace_fwd [of t] by simp_all
  have "position t1 < length (input t1)"
    using 3 by simp
  then have "position t1 < position (snd (nextToken t1))"
    by (rule nextToken_position)
  with le have "position t < position (snd r)"
    using 3 by simp
  moreover have "input (snd r) = input t"
    using 3 nextToken_input [of t1] inp by simp
  ultimately show ?case
    using 3(1) by simp
qed

declare tokenize_loop.simps [simp del]

definition tokenize :: "tokenizer \<Rightarrow> token list" where
  "tokenize t =
    (let r = tokenize_loop t []
     in fst r @ [\<lparr>ttype = EOF, tvalue = [], tline = line (snd r), tcolumn = column (snd r)\<rparr>])"

lemma nextToken_no_EOF: "fst (nextToken u) = Some k \<Longrightarrow> ttype k \<noteq> EOF"
  by (auto simp: nextToken_def Let_def readNumber_def readString_def readIdentifier_def
      split: option.splits if_splits)

lemma tokenize_loop_no_EOF:
  "\<forall>k \<in> set tokens. ttype k \<noteq> EOF \<Longrightarrow>
     \<forall>k \<in> set (fst (tokenize_loop t tokens)). ttype k \<noteq> EOF"
proof (induction t tokens rule: tokenize_loop.induct)
  case (1 t tokens)
  note unf = tokenize_loop.simps [of t tokens]
  define t1 where "t1 = skipWhitespace t"
  define r where "r = nextToken t1"
  define tokens' where "tokens' = (case fst r of None \<Rightarrow> tokens | Some tok \<Rightarrow> tokens @ [tok])"
  let ?comment = "at_comment t1"
  have new: "\<forall>k \<in> set tokens'. ttype k \<noteq> EOF"
    using "1.prems" nextToken_no_EOF [of t1] by (auto simp: tokens'_def r_def split: option.splits)
  consider (stop) "\<not> position t < length (input t)"
    | (blank) "position t < length (input t)" "position t1 \<ge> length (input t1)"
    | (comment) "position t < length (input t)" "\<not> position t1 \<ge> length (input t1)" ?comment
    | (token) "position t < length (input t)" "\<not> position t1 \<ge> length (input t1)" "\<not> ?comment"
    by blast
  then show ?case
  proof cases
    case stop
    then show ?thesis unfolding unf using "1.prems" by simp
  next
    case blank
    then show ?thesis unfolding unf using "1.prems" by (simp add: t1_def)
  next
    case comment
    then have "tokenize_loop t tokens = tokenize_loop (skipComment t1) tokens"
      unfolding unf by (simp add: t1_def)
    moreover have "\<forall>k \<in> set (fst (tokenize_loop (skipComment t1) tokens)). ttype k \<noteq> EOF"
      using "1.IH"(1) [OF comment(1) t1_def comment(2) comment(3) "1.prems"] .
    ultimately show ?thesis by simp
  next
    case token
    then have "tokenize_loop t tokens = tokenize_loop (snd r) tokens'"
      unfolding unf by (simp add: t1_def r_def tokens'_def Let_def)
    moreover have "\<forall>k \<in> set (fst (tokenize_loop (snd r) tokens')). ttype k \<noteq> EOF"
      using "1.IH"(2) [OF token(1) t1_def token(2) token(3) r_def] new
      by (simp add: tokens'_def)
    ultimately show ?thesis by simp
  qed
qed

section \<open>Runtime values and the syntax tree\<close>

text \<open>
  A runtime value of the interpreter is a host value: a number, a string, a boolean,
  \<open>undefined\<close> or \<open>null\<close>. Host numbers are IEEE-754 doubles. The embedding represents the
  doubles that are integers of magnitude at most \<open>2^53 - 1\<close> exactly (\<open>VNumber\<close>), and
  not-a-number (\<open>VNaN\<close>). Every host operation below returns \<open>None\<close> where its result is a
  double outside this range (a fraction, an infinity, a rounded sum) or depends on the
  host's conversion of a string to a number; \<open>None\<close> propagates to the result of the run,
  so nothing is stated about such a run. Negative zero is identified with zero: with
  division by zero left out, no operation of the language tells them apart.
\<close>

datatype jsvalue =
    VNumber int
  | VNaN
  | VString string
  | VBoolean bool
  | VUndefined
  | VNull

definition max_safe_integer :: int where
  "max_safe_integer = 9007199254740991"

definition exact :: "int \<Rightarrow> jsvalue option" where
  "exact i = (if \<bar>i\<bar> \<le> max_safe_integer then Some (VNumber i) else None)"

text \<open>
  Expressions and statements. The source has one node type, told apart by its \<open>type\<close>
  tag; \<open>ExpressionStatement\<close> is an expression node in statement position. A call node
  takes its name from the \<open>name\<close> field of the callee node, which is \<open>undefined\<close>
  (\<open>None\<close>) when the callee is neither an identifier nor a call. Operators are the
  strings the tokenizer put into the token.
\<close>

datatype expr =
    Literal jsvalue
  | Identifier string
  | UnaryExpression string expr
  | BinaryExpression string expr expr
  | CallExpression "string option" "expr list"

datatype stmt =
    VariableDeclaration string expr
  | PrintStatement expr
  | WhileLoop expr "stmt list"
  | IfStatement expr "stmt list" "stmt list option"
  | FunctionDeclaration string "string list" "stmt list"
  | ExpressionStatement expr

section \<open>Exceptions, state and bounded recursion\<close>

text \<open>
  A method that can throw returns \<open>Inl message\<close> for the exception or \<open>Inr result\<close>,
  paired with the object's state at that moment (the fields are mutated in place, so the
  state survives the throw). Recursive methods take a bound on the depth of recursion as
  their first argument and return \<open>None\<close> when it is exhausted; the source has no such
  bound, and \<open>None\<close> stands for a run the embedding gives no result for.
\<close>

type_synonym ('a, 's) outcome = "((string + 'a) \<times> 's) option"

definition return :: "'a \<Rightarrow> 's \<Rightarrow> ('a, 's) outcome" where
  "return a s = Some (Inr a, s)"

definition throw :: "string \<Rightarrow> 's \<Rightarrow> ('a, 's) outcome" where
  "throw message s = Some (Inl message, s)"

definition bind :: "('a, 's) outcome \<Rightarrow> ('a \<Rightarrow> 's \<Rightarrow> ('b, 's) outcome) \<Rightarrow> ('b, 's) outcome" where
  "bind r f =
    (case r of
       None \<Rightarrow> None
     | Some (Inl message, s) \<Rightarrow> Some (Inl message, s)
     | Some (Inr a, s) \<Rightarrow> f a s)"

lemma bind_return [simp]: "bind (Some (Inr a, s)) f = f a s"
  by (simp add: bind_def)

lemma bind_throw [simp]: "bind (Some (Inl message, s)) f = Some (Inl message, s)"
  by (simp add: bind_def)

lemma bind_None [simp]: "bind None f = None"
  by (simp add: bind_def)

lemma bind_weak_cong [cong]: "r = r' \<Longrightarrow> bind r f = bind r' f"
  by simp

text \<open>
  Reading a property of \<open>undefined\<close> throws a host \<open>TypeError\<close>; its message is the
  host's (here V8's wording).
\<close>

definition type_error :: "string \<Rightarrow> string" where
  "type_error property =
     ''Cannot read properties of undefined (reading '' @ [CHR 0x27] @ property @ [CHR 0x27] @ '')''"

text \<open>Decimal rendering of a natural number.\<close>

definition digit_char :: "nat \<Rightarrow> char" where
  "digit_char d = char_of (of_char (CHR ''0'') + d)"

function show_nat :: "nat \<Rightarrow> string" where
  "show_nat n = (if n < 10 then [digit_char n] else show_nat (n div 10) @ [digit_char (n mod 10)])"
  by pat_completeness auto
termination
  by (relation "measure id") auto

declare show_nat.simps [simp del]

section \<open>BrainRotParser\<close>

text \<open>
  The parser object: the token array and the index of the current token. Two of its
  methods share their names with tokenizer methods and carry the prefix \<open>p_\<close> here, as do
  the other token-level helpers. Reading the array outside its bounds yields \<open>undefined\<close>,
  which is \<open>None\<close>.
\<close>

record parser =
  tokens :: "token list"
  p_position :: nat

type_synonym 'a parsing = "parser \<Rightarrow> ('a, parser) outcome"

definition new_parser :: "token list \<Rightarrow> parser" where
  "new_parser ts = \<lparr>tokens = ts, p_position = 0\<rparr>"

definition p_peek :: "parser \<Rightarrow> token option" where
  "p_peek p =
    (if p_position p < length (tokens p) then Some (tokens p ! p_position p) else None)"

definition p_previous :: "parser \<Rightarrow> token option" where
  "p_previous p =
    (if 1 \<le> p_position p \<and> p_position p - 1 < length (tokens p)
     then Some (tokens p ! (p_position p - 1)) else None)"

definition p_isAtEnd :: "bool parsing" where
  "p_isAtEnd p =
    (case p_peek p of
       None \<Rightarrow> throw (type_error ''type'') p
     | Some token \<Rightarrow> return (ttype token = EOF) p)"

definition p_advance :: "token option parsing" where
  "p_advance p =
    bind (p_isAtEnd p) (\<lambda>atEnd p.
      let p = (if \<not> atEnd then p\<lparr>p_position := p_position p + 1\<rparr> else p)
      in return (p_previous p) p)"

text \<open>\<open>check(type, value)\<close>; the value is optional (\<open>None\<close> when the caller passes none).\<close>

definition p_check :: "token_type \<Rightarrow> string option \<Rightarrow> bool parsing" where
  "p_check ty val p =
    bind (p_isAtEnd p) (\<lambda>atEnd p.
      if atEnd then return False p
      else
        (case p_peek p of
           None \<Rightarrow> throw (type_error ''type'') p
         | Some token \<Rightarrow>
             return (ttype token = ty \<and> (case val of None \<Rightarrow> True | Some v \<Rightarrow> tvalue token = v)) p))"

text \<open>
  \<open>match\<close> takes a list of type/value pairs; every call in the source passes one pair, or
  one type alone. \<open>either\<close> is the host's \<open>||\<close> between two calls of \<open>match\<close>: the second
  runs only when the first returned false.
\<close>

definition p_match :: "token_type \<Rightarrow> string option \<Rightarrow> bool parsing" where
  "p_match ty val p =
    bind (p_check ty val p) (\<lambda>found p.
      if found then bind (p_advance p) (\<lambda>_ p. return True p) else return False p)"

definition either :: "bool parsing \<Rightarrow> bool parsing \<Rightarrow> bool parsing" where
  "either a b p = bind (a p) (\<lambda>found p. if found then return True p else b p)"

definition p_consume :: "token_type \<Rightarrow> string \<Rightarrow> string \<Rightarrow> token option parsing" where
  "p_consume ty val message p =
    bind
      (if val = [] then
         (case p_peek p of
            None \<Rightarrow> throw (type_error ''type'') p
          | Some token \<Rightarrow> return (ttype token = ty) p)
       else p_check ty (Some val) p)
      (\<lambda>found p.
        if found then p_advance p
        else
          (case p_peek p of
             None \<Rightarrow> throw (type_error ''line'') p
           | Some current \<Rightarrow>
               throw (message @ '' at line '' @ show_nat (tline current)
                        @ '', column '' @ show_nat (tcolumn current)) p))"

text \<open>\<open>token.value\<close>, for a token that may be \<open>undefined\<close>.\<close>

definition value_of :: "token option \<Rightarrow> string parsing" where
  "value_of token p =
    (case token of None \<Rightarrow> throw (type_error ''value'') p | Some k \<Rightarrow> return (tvalue k) p)"

text \<open>
  The value of a number literal: \<open>parseFloat\<close> of the text when it contains a dot,
  \<open>parseInt\<close> otherwise. Only \<open>parseInt\<close> of a non-empty string of digits is represented.
\<close>

definition digits_value :: "string \<Rightarrow> int" where
  "digits_value text = foldl (\<lambda>acc c. 10 * acc + (int (of_char c) - int (of_char (CHR ''0'')))) 0 text"

definition number_literal :: "string \<Rightarrow> jsvalue option" where
  "number_literal text =
    (if CHR ''.'' \<in> set text then None
     else if text \<noteq> [] \<and> (\<forall>c \<in> set text. is_digit c) then exact (digits_value text)
     else None)"

text \<open>The \<open>name\<close> field of a callee node.\<close>

fun callee_name :: "expr \<Rightarrow> string option" where
  "callee_name (Identifier name) = Some name"
| "callee_name (CallExpression name args) = name"
| "callee_name _ = None"

subsection \<open>Expressions\<close>

text \<open>
  Each binary level of the grammar parses one operand and then loops: while one of its
  operators matches, it takes the operator from the token just passed, parses the right
  operand and builds a node around the expression so far. The six loops differ in their
  operators and their operand only; \<open>binary_loop\<close> is that loop.
\<close>

fun binary_loop :: "nat \<Rightarrow> bool parsing \<Rightarrow> expr parsing \<Rightarrow> expr \<Rightarrow> expr parsing" where
  "binary_loop 0 matches operand left p = None"
| "binary_loop (Suc n) matches operand left p =
    bind (matches p) (\<lambda>found p.
      if found then
        bind (value_of (p_previous p) p) (\<lambda>operator p.
        bind (operand p) (\<lambda>right p.
        binary_loop n matches operand (BinaryExpression operator left right) p))
      else return left p)"

fun expression :: "nat \<Rightarrow> expr parsing"
  and logicalOr :: "nat \<Rightarrow> expr parsing"
  and logicalAnd :: "nat \<Rightarrow> expr parsing"
  and equality :: "nat \<Rightarrow> expr parsing"
  and comparison :: "nat \<Rightarrow> expr parsing"
  and term_expr :: "nat \<Rightarrow> expr parsing"
  and factor :: "nat \<Rightarrow> expr parsing"
  and unary :: "nat \<Rightarrow> expr parsing"
  and call :: "nat \<Rightarrow> expr parsing"
  and call_loop :: "nat \<Rightarrow> expr \<Rightarrow> expr parsing"
  and finishCall :: "nat \<Rightarrow> expr \<Rightarrow> expr parsing"
  and arguments_loop :: "nat \<Rightarrow> expr list \<Rightarrow> expr list parsing"
  and primary :: "nat \<Rightarrow> expr parsing"
where
  "expression 0 p = None"
| "expression (Suc n) p = logicalOr n p"
| "logicalOr 0 p = None"
| "logicalOr (Suc n) p =
    bind (logicalAnd n p) (\<lambda>e p.
      binary_loop n (p_match KEYWORD (Some ''ORROT'')) (\<lambda>p. logicalAnd n p) e p)"
| "logicalAnd 0 p = None"
| "logicalAnd (Suc n) p =
    bind (equality n p) (\<lambda>e p.
      binary_loop n (p_match KEYWORD (Some ''ANDROT'')) (\<lambda>p. equality n p) e p)"
| "equality 0 p = None"
| "equality (Suc n) p =
    bind (comparison n p) (\<lambda>e p.
      binary_loop n
        (either (p_match OPERATOR (Some ''EQ'')) (p_match OPERATOR (Some ''NEQ'')))
        (\<lambda>p. comparison n p) e p)"
| "comparison 0 p = None"
| "comparison (Suc n) p =
    bind (term_expr n p) (\<lambda>e p.
      binary_loop n
        (either (p_match OPERATOR (Some ''GT'')) (p_match OPERATOR (Some ''LT'')))
        (\<lambda>p. term_expr n p) e p)"
| "term_expr 0 p = None"
| "term_expr (Suc n) p =
    bind (factor n p) (\<lambda>e p.
      binary_loop n
        (either (p_match OPERATOR (Some ''PLUS'')) (p_match OPERATOR (Some ''MINUS'')))
        (\<lambda>p. factor n p) e p)"
| "factor 0 p = None"
| "factor (Suc n) p =
    bind (unary n p) (\<lambda>e p.
      binary_loop n
        (either (p_match OPERATOR (Some ''MULTIPLY'')) (p_match OPERATOR (Some ''DIVIDE'')))
        (\<lambda>p. unary n p) e p)"
| "unary 0 p = None"
| "unary (Suc n) p =
    bind
      (either (p_match OPERATOR (Some ''NOT''))
         (either (p_match KEYWORD (Some ''NOTROT'')) (p_match OPERATOR (Some ''MINUS''))) p)
      (\<lambda>found p.
        if found then
          bind (value_of (p_previous p) p) (\<lambda>operator p.
          bind (unary n p) (\<lambda>right p.
          return (UnaryExpression operator right) p))
        else call n p)"
| "call 0 p = None"
| "call (Suc n) p = bind (primary n p) (\<lambda>e p. call_loop n e p)"
| "call_loop 0 e p = None"
| "call_loop (Suc n) e p =
    bind (p_match DELIMITER (Some ''LPAREN'') p) (\<lambda>found p.
      if found then bind (finishCall n e p) (\<lambda>e p. call_loop n e p)
      else return e p)"
| "finishCall 0 callee p = None"
| "finishCall (Suc n) callee p =
    bind (p_check DELIMITER (Some ''RPAREN'') p) (\<lambda>closed p.
    bind (if \<not> closed then arguments_loop n [] p else return [] p) (\<lambda>args p.
    bind (p_consume DELIMITER ''RPAREN'' ''Expected ) after arguments'' p) (\<lambda>_ p.
    return (CallExpression (callee_name callee) args) p)))"
| "arguments_loop 0 args p = None"
| "arguments_loop (Suc n) args p =
    bind (expression n p) (\<lambda>arg p.
    bind (p_match DELIMITER (Some ''COMMA'') p) (\<lambda>more p.
      if more then arguments_loop n (args @ [arg]) p else return (args @ [arg]) p))"
| "primary 0 p = None"
| "primary (Suc n) p =
    bind (p_match NUMBER None p) (\<lambda>found p.
      if found then
        bind (value_of (p_previous p) p) (\<lambda>text p.
          case number_literal text of
            None \<Rightarrow> None
          | Some v \<Rightarrow> return (Literal v) p)
      else
    bind (p_match STRING None p) (\<lambda>found p.
      if found then
        bind (value_of (p_previous p) p) (\<lambda>text p. return (Literal (VString text)) p)
      else
    bind (p_match IDENTIFIER None p) (\<lambda>found p.
      if found then
        bind (value_of (p_previous p) p) (\<lambda>name p. return (Identifier name) p)
      else
    bind (p_match DELIMITER (Some ''LPAREN'') p) (\<lambda>found p.
      if found then
        bind (expression n p) (\<lambda>e p.
        bind (p_consume DELIMITER ''RPAREN'' ''Expected ) after expression'' p) (\<lambda>_ p.
        return e p))
      else
        bind (value_of (p_peek p) p) (\<lambda>text p.
        throw (''Unexpected token: '' @ text) p)))))"

subsection \<open>Statements\<close>

text \<open>The parameter list of a function declaration: a do-while loop over identifiers.\<close>

fun parameters_loop :: "nat \<Rightarrow> string list \<Rightarrow> string list parsing" where
  "parameters_loop 0 parameters p = None"
| "parameters_loop (Suc n) parameters p =
    bind (p_consume IDENTIFIER [] ''Expected parameter name'' p) (\<lambda>param p.
    bind (value_of param p) (\<lambda>name p.
    bind (p_match DELIMITER (Some ''COMMA'') p) (\<lambda>more p.
      if more then parameters_loop n (parameters @ [name]) p
      else return (parameters @ [name]) p)))"

text \<open>
  \<open>block_loop\<close> is the loop that reads the statements of a brace-delimited body, up to a
  closing brace or the end of the tokens; the source writes it out four times.
\<close>

fun statement :: "nat \<Rightarrow> stmt parsing"
  and variableDeclaration :: "nat \<Rightarrow> stmt parsing"
  and printStatement :: "nat \<Rightarrow> stmt parsing"
  and whileLoop :: "nat \<Rightarrow> stmt parsing"
  and ifStatement :: "nat \<Rightarrow> stmt parsing"
  and functionDeclaration :: "nat \<Rightarrow> stmt parsing"
  and block_loop :: "nat \<Rightarrow> stmt list \<Rightarrow> stmt list parsing"
where
  "statement 0 p = None"
| "statement (Suc n) p =
    bind (p_match KEYWORD (Some ''MOLD'') p) (\<lambda>found p.
      if found then variableDeclaration n p else
    bind (p_match KEYWORD (Some ''ROTT'') p) (\<lambda>found p.
      if found then printStatement n p else
    bind (p_match KEYWORD (Some ''SPIN'') p) (\<lambda>found p.
      if found then whileLoop n p else
    bind (p_match KEYWORD (Some ''IFROT'') p) (\<lambda>found p.
      if found then ifStatement n p else
    bind (p_match KEYWORD (Some ''FNROT'') p) (\<lambda>found p.
      if found then functionDeclaration n p else
    bind (expression n p) (\<lambda>e p.
    bind (p_consume DELIMITER ''SEMICOLON'' ''Expected ; after expression'' p) (\<lambda>_ p.
    return (ExpressionStatement e) p)))))))"
| "variableDeclaration 0 p = None"
| "variableDeclaration (Suc n) p =
    bind (p_consume IDENTIFIER [] ''Expected variable name'' p) (\<lambda>name p.
    bind (p_consume OPERATOR ''ASSIGN'' ''Expected = after variable name'' p) (\<lambda>_ p.
    bind (expression n p) (\<lambda>e p.
    bind (p_consume DELIMITER ''SEMICOLON'' ''Expected ; after variable declaration'' p) (\<lambda>_ p.
    bind (value_of name p) (\<lambda>name p.
    return (VariableDeclaration name e) p)))))"
| "printStatement 0 p = None"
| "printStatement (Suc n) p =
    bind (expression n p) (\<lambda>e p.
    bind (p_consume DELIMITER ''SEMICOLON'' ''Expected ; after print statement'' p) (\<lambda>_ p.
    return (PrintStatement e) p))"
| "whileLoop 0 p = None"
| "whileLoop (Suc n) p =
    bind (expression n p) (\<lambda>condition p.
    bind (p_consume DELIMITER ''LBRACE'' ''Expected { after while condition'' p) (\<lambda>_ p.
    bind (block_loop n [] p) (\<lambda>body p.
    bind (p_consume DELIMITER ''RBRACE'' ''Expected } after while body'' p) (\<lambda>_ p.
    return (WhileLoop condition body) p))))"
| "ifStatement 0 p = None"
| "ifStatement (Suc n) p =
    bind (expression n p) (\<lambda>condition p.
    bind (p_consume DELIMITER ''LBRACE'' ''Expected { after if condition'' p) (\<lambda>_ p.
    bind (block_loop n [] p) (\<lambda>thenBody p.
    bind (p_consume DELIMITER ''RBRACE'' ''Expected } after if body'' p) (\<lambda>_ p.
    bind (p_match KEYWORD (Some ''ELSED'') p) (\<lambda>found p.
      if found then
        bind (p_consume DELIMITER ''LBRACE'' ''Expected { after else'' p) (\<lambda>_ p.
        bind (block_loop n [] p) (\<lambda>elseBody p.
        bind (p_consume DELIMITER ''RBRACE'' ''Expected } after else body'' p) (\<lambda>_ p.
        return (IfStatement condition thenBody (Some elseBody)) p)))
      else return (IfStatement condition thenBody None) p)))))"
| "functionDeclaration 0 p = None"
| "functionDeclaration (Suc n) p =
    bind (p_consume IDENTIFIER [] ''Expected function name'' p) (\<lambda>name p.
    bind (p_consume DELIMITER ''LPAREN'' ''Expected ( after function name'' p) (\<lambda>_ p.
    bind (p_check DELIMITER (Some ''RPAREN'') p) (\<lambda>closed p.
    bind (if \<not> closed then parameters_loop n [] p else return [] p) (\<lambda>parameters p.
    bind (p_consume DELIMITER ''RPAREN'' ''Expected ) after parameters'' p) (\<lambda>_ p.
    bind (p_consume DELIMITER ''LBRACE'' ''Expected { before function body'' p) (\<lambda>_ p.
    bind (block_loop n [] p) (\<lambda>body p.
    bind (p_consume DELIMITER ''RBRACE'' ''Expected } after function body'' p) (\<lambda>_ p.
    bind (value_of name p) (\<lambda>name p.
    return (FunctionDeclaration name parameters body) p)))))))))"
| "block_loop 0 body p = None"
| "block_loop (Suc n) body p =
    bind (p_check DELIMITER (Some ''RBRACE'') p) (\<lambda>closed p.
      if closed then return body p else
    bind (p_isAtEnd p) (\<lambda>atEnd p.
      if atEnd then return body p else
    bind (statement n p) (\<lambda>s p.
    block_loop n (body @ [s]) p)))"

subsection \<open>Recovery and the top-level loop\<close>

text \<open>
  \<open>synchronize\<close> moves over one token, then on until the token just passed has the
  text \<open>SEMICOLON\<close>, or the current token has the text of a statement keyword, or the
  end of the tokens.
\<close>

fun synchronize_loop :: "nat \<Rightarrow> unit parsing" where
  "synchronize_loop 0 p = None"
| "synchronize_loop (Suc n) p =
    bind (p_isAtEnd p) (\<lambda>atEnd p.
      if atEnd then return () p else
    bind (value_of (p_previous p) p) (\<lambda>passed p.
      if passed = ''SEMICOLON'' then return () p else
    bind (value_of (p_peek p) p) (\<lambda>current p.
      if current \<in> set [''MOLD'', ''ROTT'', ''SPIN'', ''IFROT'', ''FNROT''] then return () p else
    bind (p_advance p) (\<lambda>_ p.
    synchronize_loop n p))))"

definition synchronize :: "nat \<Rightarrow> unit parsing" where
  "synchronize n p = bind (p_advance p) (\<lambda>_ p. synchronize_loop n p)"

text \<open>
  \<open>parse\<close>: statements until the end of the tokens. An exception thrown by \<open>statement\<close>
  is caught and dropped, and parsing resumes where \<open>synchronize\<close> stops.
\<close>

fun parse_loop :: "nat \<Rightarrow> stmt list \<Rightarrow> stmt list parsing" where
  "parse_loop 0 statements p = None"
| "parse_loop (Suc n) statements p =
    bind (p_isAtEnd p) (\<lambda>atEnd p.
      if atEnd then return statements p
      else
        (case statement n p of
           None \<Rightarrow> None
         | Some (Inr s, p) \<Rightarrow> parse_loop n (statements @ [s]) p
         | Some (Inl error, p) \<Rightarrow> bind (synchronize n p) (\<lambda>_ p. parse_loop n statements p)))"

definition parse :: "nat \<Rightarrow> stmt list parsing" where
  "parse n p = parse_loop n [] p"

section \<open>Host operations on values\<close>

definition show_int :: "int \<Rightarrow> string" where
  "show_int i = (if i < 0 then ''-'' @ show_nat (nat (- i)) else show_nat (nat i))"

text \<open>\<open>String(v)\<close>, which is also the conversion \<open>+\<close> applies next to a string.\<close>

fun to_string :: "jsvalue \<Rightarrow> string" where
  "to_string (VNumber i) = show_int i"
| "to_string VNaN = ''NaN''"
| "to_string (VString s) = s"
| "to_string (VBoolean b) = (if b then ''true'' else ''false'')"
| "to_string VUndefined = ''undefined''"
| "to_string VNull = ''null''"

text \<open>
  The conversion to a number that the arithmetic and ordering operators apply; the result
  is \<open>VNumber\<close> or \<open>VNaN\<close>. The conversion of a string is not represented.
\<close>

fun to_number :: "jsvalue \<Rightarrow> jsvalue option" where
  "to_number (VNumber i) = Some (VNumber i)"
| "to_number VNaN = Some VNaN"
| "to_number (VString s) = None"
| "to_number (VBoolean b) = Some (VNumber (if b then 1 else 0))"
| "to_number VUndefined = Some VNaN"
| "to_number VNull = Some (VNumber 0)"

fun is_string :: "jsvalue \<Rightarrow> bool" where
  "is_string (VString s) = True"
| "is_string _ = False"

text \<open>
  Arithmetic on two converted operands: not-a-number if either is, the exact integer
  result where it is a represented double.
\<close>

fun arithmetic :: "(int \<Rightarrow> int \<Rightarrow> int option) \<Rightarrow> jsvalue \<Rightarrow> jsvalue \<Rightarrow> jsvalue option" where
  "arithmetic f l r =
    (case (to_number l, to_number r) of
       (Some (VNumber a), Some (VNumber b)) \<Rightarrow>
         (case f a b of None \<Rightarrow> None | Some c \<Rightarrow> exact c)
     | (Some _, Some _) \<Rightarrow> Some VNaN
     | _ \<Rightarrow> None)"

definition js_plus :: "jsvalue \<Rightarrow> jsvalue \<Rightarrow> jsvalue option" where
  "js_plus l r =
    (if is_string l \<or> is_string r then Some (VString (to_string l @ to_string r))
     else arithmetic (\<lambda>a b. Some (a + b)) l r)"

definition js_minus :: "jsvalue \<Rightarrow> jsvalue \<Rightarrow> jsvalue option" where
  "js_minus l r = arithmetic (\<lambda>a b. Some (a - b)) l r"

definition js_multiply :: "jsvalue \<Rightarrow> jsvalue \<Rightarrow> jsvalue option" where
  "js_multiply l r = arithmetic (\<lambda>a b. Some (a * b)) l r"

text \<open>Division is represented where the quotient of two integers is an integer.\<close>

definition js_divide :: "jsvalue \<Rightarrow> jsvalue \<Rightarrow> jsvalue option" where
  "js_divide l r = arithmetic (\<lambda>a b. if b \<noteq> 0 \<and> a mod b = 0 then Some (a div b) else None) l r"

text \<open>Strings are ordered by the codes of their characters, position by position.\<close>

fun string_less :: "string \<Rightarrow> string \<Rightarrow> bool" where
  "string_less [] [] = False"
| "string_less [] (y # ys) = True"
| "string_less (x # xs) [] = False"
| "string_less (x # xs) (y # ys) =
    (if (of_char x :: nat) < of_char y then True
     else if (of_char y :: nat) < of_char x then False
     else string_less xs ys)"

fun js_less :: "jsvalue \<Rightarrow> jsvalue \<Rightarrow> jsvalue option" where
  "js_less (VString a) (VString b) = Some (VBoolean (string_less a b))"
| "js_less l r =
    (case (to_number l, to_number r) of
       (Some (VNumber a), Some (VNumber b)) \<Rightarrow> Some (VBoolean (a < b))
     | (Some _, Some _) \<Rightarrow> Some (VBoolean False)
     | _ \<Rightarrow> None)"

definition js_greater :: "jsvalue \<Rightarrow> jsvalue \<Rightarrow> jsvalue option" where
  "js_greater l r = js_less r l"

text \<open>\<open>===\<close>: the same type and the same value; not-a-number equals nothing.\<close>

fun strict_equals :: "jsvalue \<Rightarrow> jsvalue \<Rightarrow> bool" where
  "strict_equals VNaN r = False"
| "strict_equals l VNaN = False"
| "strict_equals l r = (l = r)"

section \<open>BrainRotInterpreter\<close>

text \<open>
  The interpreter object: the variable map, the function table (the field \<open>functions\<close>)
  and the output lines (the field \<open>output\<close>). A function table entry is the declaration
  node, of which the call reads the parameters and the body.
\<close>

record interpreter =
  variables :: "string \<rightharpoonup> jsvalue"
  function_table :: "string \<rightharpoonup> (string list \<times> stmt list)"
  outputs :: "string list"

type_synonym 'a running = "interpreter \<Rightarrow> ('a, interpreter) outcome"

definition new_interpreter :: interpreter where
  "new_interpreter = \<lparr>variables = Map.empty, function_table = Map.empty, outputs = []\<rparr>"

fun isTruthy :: "jsvalue \<Rightarrow> bool" where
  "isTruthy VNull = False"
| "isTruthy VUndefined = False"
| "isTruthy (VBoolean b) = b"
| "isTruthy (VNumber i) = (i \<noteq> 0)"
| "isTruthy VNaN = True"
| "isTruthy (VString s) = (length s > 0)"

text \<open>
  The \<open>switch\<close> over the operator of a binary expression, on the values of the two
  operands. \<open>None\<close> is a host result that is not represented.
\<close>

definition host_result :: "jsvalue option \<Rightarrow> jsvalue running" where
  "host_result r st = (case r of None \<Rightarrow> None | Some v \<Rightarrow> return v st)"

definition binary_operation :: "string \<Rightarrow> jsvalue \<Rightarrow> jsvalue \<Rightarrow> jsvalue running" where
  "binary_operation operator left right st =
    (if operator = ''PLUS'' then host_result (js_plus left right) st
     else if operator = ''MINUS'' then host_result (js_minus left right) st
     else if operator = ''MULTIPLY'' then host_result (js_multiply left right) st
     else if operator = ''DIVIDE'' then host_result (js_divide left right) st
     else if operator = ''GT'' then host_result (js_greater left right) st
     else if operator = ''LT'' then host_result (js_less left right) st
     else if operator = ''EQ'' then return (VBoolean (strict_equals left right)) st
     else if operator = ''NEQ'' then return (VBoolean (\<not> strict_equals left right)) st
     else if operator = ''ANDROT'' then return (VBoolean (isTruthy left \<and> isTruthy right)) st
     else if operator = ''ORROT'' then return (VBoolean (isTruthy left \<or> isTruthy right)) st
     else throw (''Unknown operator: '' @ operator) st)"

text \<open>
  \<open>execute\<close> and \<open>evaluate\<close>, with their loops:
  \<^item> \<open>execute_all\<close>: a \<open>for\<close> loop over statements whose results are dropped (the bodies
    of loops and conditionals, and the program itself);
  \<^item> \<open>while_loop\<close>: the \<open>while\<close> loop of a \<open>WhileLoop\<close> node;
  \<^item> \<open>bind_parameters\<close>: the loop over the declared parameters of a called function,
    which evaluates the argument at the same index, if there is one;
  \<^item> \<open>execute_body\<close>: the loop over the body of a called function, which keeps the result
    of the statement executed last.
\<close>

function execute :: "nat \<Rightarrow> stmt \<Rightarrow> jsvalue running"
  and execute_all :: "nat \<Rightarrow> stmt list \<Rightarrow> unit running"
  and while_loop :: "nat \<Rightarrow> expr \<Rightarrow> stmt list \<Rightarrow> unit running"
  and evaluate :: "nat \<Rightarrow> expr \<Rightarrow> jsvalue running"
  and bind_parameters :: "nat \<Rightarrow> string list \<Rightarrow> expr list \<Rightarrow> unit running"
  and execute_body :: "nat \<Rightarrow> stmt list \<Rightarrow> jsvalue \<Rightarrow> jsvalue running"
where
  "execute 0 node st = None"
| "execute (Suc n) node st =
    (case node of
       VariableDeclaration name e \<Rightarrow>
         bind (evaluate n e st) (\<lambda>v st.
         return v (st\<lparr>variables := (variables st)(name \<mapsto> v)\<rparr>))
     | PrintStatement e \<Rightarrow>
         bind (evaluate n e st) (\<lambda>result st.
         return result (st\<lparr>outputs := outputs st @ [to_string result]\<rparr>))
     | WhileLoop condition body \<Rightarrow>
         bind (while_loop n condition body st) (\<lambda>_ st. return VNull st)
     | IfStatement condition thenBody elseBody \<Rightarrow>
         bind (evaluate n condition st) (\<lambda>c st.
         bind
           (if isTruthy c then execute_all n thenBody st
            else (case elseBody of Some body \<Rightarrow> execute_all n body st | None \<Rightarrow> return () st))
           (\<lambda>_ st. return VNull st))
     | FunctionDeclaration name parameters body \<Rightarrow>
         return VNull (st\<lparr>function_table := (function_table st)(name \<mapsto> (parameters, body))\<rparr>)
     | ExpressionStatement e \<Rightarrow> evaluate n e st)"
| "execute_all 0 nodes st = None"
| "execute_all (Suc n) nodes st =
    (case nodes of
       [] \<Rightarrow> return () st
     | node # rest \<Rightarrow> bind (execute n node st) (\<lambda>_ st. execute_all n rest st))"
| "while_loop 0 condition body st = None"
| "while_loop (Suc n) condition body st =
    bind (evaluate n condition st) (\<lambda>c st.
      if isTruthy c then
        bind (execute_all n body st) (\<lambda>_ st. while_loop n condition body st)
      else return () st)"
| "evaluate 0 e st = None"
| "evaluate (Suc n) e st =
    (case e of
       Literal v \<Rightarrow> return v st
     | Identifier name \<Rightarrow>
         (case variables st name of
            Some v \<Rightarrow> return v st
          | None \<Rightarrow> throw (''Undefined variable: '' @ name) st)
     | BinaryExpression operator l r \<Rightarrow>
         bind (evaluate n l st) (\<lambda>left st.
         bind (evaluate n r st) (\<lambda>right st.
         binary_operation operator left right st))
     | CallExpression name args \<Rightarrow>
         (case (case name of None \<Rightarrow> None | Some f \<Rightarrow> function_table st f) of
            None \<Rightarrow>
              throw (''Undefined function: ''
                       @ (case name of None \<Rightarrow> ''undefined'' | Some f \<Rightarrow> f)) st
          | Some (parameters, body) \<Rightarrow>
              (let prevVars = variables st in
               bind (bind_parameters n parameters args st) (\<lambda>_ st.
               bind (execute_body n body VUndefined st) (\<lambda>result st.
               return result (st\<lparr>variables := prevVars\<rparr>)))))
     | UnaryExpression operator operand \<Rightarrow>
         throw ''Unknown expression type: UnaryExpression'' st)"
| "bind_parameters 0 parameters args st = None"
| "bind_parameters (Suc n) parameters args st =
    (case parameters of
       [] \<Rightarrow> return () st
     | parameter # rest \<Rightarrow>
         bind (case args of [] \<Rightarrow> return VUndefined st | arg # _ \<Rightarrow> evaluate n arg st)
           (\<lambda>paramValue st.
             bind_parameters n rest (tl args)
               (st\<lparr>variables := (variables st)(parameter \<mapsto> paramValue)\<rparr>)))"
| "execute_body 0 nodes result st = None"
| "execute_body (Suc n) nodes result st =
    (case nodes of
       [] \<Rightarrow> return result st
     | node # rest \<Rightarrow> bind (execute n node st) (\<lambda>result st. execute_body n rest result st))"
  by pat_completeness auto
termination
  by (relation "measure (case_sum (case_sum fst (case_sum fst fst))
                           (case_sum fst (case_sum fst fst)))")
     auto

subsection \<open>\<open>interpret\<close> and the entry point\<close>

text \<open>The method \<open>interpret\<close> is \<open>interpret_ast\<close> here.\<close>

datatype error_type = SYNTAX | RUNTIME | TYPE

record brainrot_error =
  message :: string
  eline :: nat
  ecolumn :: nat
  etype :: error_type

record run_result =
  result_output :: "string list"
  result_error :: "brainrot_error option"

definition interpret_ast :: "nat \<Rightarrow> stmt list \<Rightarrow> interpreter \<Rightarrow> run_result option" where
  "interpret_ast n ast st =
    (case execute_all n ast (st\<lparr>outputs := []\<rparr>) of
       None \<Rightarrow> None
     | Some (Inr _, st) \<Rightarrow> Some \<lparr>result_output = outputs st, result_error = None\<rparr>
     | Some (Inl msg, st) \<Rightarrow>
         Some \<lparr>result_output = outputs st,
               result_error = Some \<lparr>message = ''Brain rot detected: '' @ msg,
                              eline = 0, ecolumn = 0, etype = RUNTIME\<rparr>\<rparr>)"

text \<open>
  \<open>executeBrainRot\<close>: tokenize, parse, interpret in a new interpreter; an exception that
  leaves the tokenizer or the parser becomes a \<open>SYNTAX\<close> error with no output. The bound
  \<open>n\<close> limits the depth of recursion of the parser and of the interpreter.
\<close>

definition executeBrainRot :: "nat \<Rightarrow> string \<Rightarrow> run_result option" where
  "executeBrainRot n code =
    (let tokens = tokenize (new_tokenizer code) in
     case parse n (new_parser tokens) of
       None \<Rightarrow> None
     | Some (Inr ast, p) \<Rightarrow> interpret_ast n ast new_interpreter
     | Some (Inl msg, p) \<Rightarrow>
         Some \<lparr>result_output = [],
               result_error = Some \<lparr>message = ''Syntax rotted too hard: '' @ msg,
                              eline = 0, ecolumn = 0, etype = SYNTAX\<rparr>\<rparr>)"

section \<open>Programs and states used below\<close>

text \<open>The program of the scope test: a call that declares a variable the caller has.\<close>

definition rollback_program :: string where
  "rollback_program = ''mold a = 1; fnrot f() { mold a = 99; } f(); rott a;''"

text \<open>
  An interpreter in which \<open>a\<close> is 1 and \<open>f\<close> is declared with the body
  \<open>mold a = 99; rott a;\<close>.
\<close>

definition rollback_state :: interpreter where
  "rollback_state =
    \<lparr>variables = [''a'' \<mapsto> VNumber 1],
     function_table =
       [''f'' \<mapsto> ([], [VariableDeclaration ''a'' (Literal (VNumber 99)),
                          PrintStatement (Identifier ''a'')])],
     outputs = []\<rparr>"

text \<open>The three programs of the truthiness test.\<close>

definition notrot_zero_program :: string where
  \<open>notrot_zero_program = ''ifrot notrot 0 { rott "yes"; }''\<close>

definition notrot_empty_program :: string where
  \<open>notrot_empty_program = ''ifrot notrot "" { rott "yes"; }''\<close>

definition notrot_one_program :: string where
  \<open>notrot_one_program = ''ifrot notrot 1 { rott "yes"; }''\<close>

text \<open>The example program \<open>fibonacci\<close> of the editor, with its line breaks.\<close>

definition fibonacci_program :: string where
  "fibonacci_program =
     ''#rot Fibonacci madness'' @ [CHR 0x0A] @
     ''fnrot fib(n) {'' @ [CHR 0x0A] @
     ''  ifrot n < 2 {'' @ [CHR 0x0A] @
     ''    rott n;'' @ [CHR 0x0A] @
     ''  }'' @ [CHR 0x0A] @
     ''  elsed {'' @ [CHR 0x0A] @
     ''    rott fib(n - 1) + fib(n - 2);'' @ [CHR 0x0A] @
     ''  }'' @ [CHR 0x0A] @
     ''}'' @ [CHR 0x0A] @
     [CHR 0x0A] @
     ''mold i = 0;'' @ [CHR 0x0A] @
     ''spin i < 8 {'' @ [CHR 0x0A] @
     ''  fib(i);'' @ [CHR 0x0A] @
     ''  mold i = i + 1;'' @ [CHR 0x0A] @
     ''}''"

text \<open>
  The lines a call \<open>fib(n)\<close> of that program prints: the lines of \<open>fib(n - 1)\<close>, those
  of \<open>fib(n - 2)\<close>, then the sum of the two results, which are both \<open>null\<close>.
\<close>

fun fib_lines :: "nat \<Rightarrow> string list" where
  "fib_lines 0 = [''0'']"
| "fib_lines (Suc 0) = [''1'']"
| "fib_lines (Suc (Suc n)) = fib_lines (Suc n) @ fib_lines n @ [''0'']"

text \<open>A function whose body ends in a declaration, and a call of it that is printed.\<close>

definition declaration_program :: string where
  "declaration_program = ''fnrot f() { mold a = 99; } rott f();''"

definition declaration_state :: interpreter where
  "declaration_state =
    \<lparr>variables = Map.empty,
     function_table = [''f'' \<mapsto> ([], [VariableDeclaration ''a'' (Literal (VNumber 99))])],
     outputs = []\<rparr>"

text \<open>A declaration without its semicolon, and one without its name, before a print.\<close>

definition missing_semicolon_program :: string where
  \<open>missing_semicolon_program = ''mold x = 5 rott "ok";''\<close>

definition missing_name_program :: string where
  \<open>missing_name_program = ''mold = 5; rott "ok";''\<close>

text \<open>Nested calls: the inner function reads and declares a variable of the outer one.\<close>

definition nested_program :: string where
  "nested_program =
     ''fnrot inner() { rott x; mold x = 5; } fnrot outer() { mold x = 1; inner(); rott x; } outer();''"

definition nested_write_program :: string where
  "nested_write_program =
     ''fnrot inner() { mold x = 5; } fnrot outer() { mold x = 1; inner(); rott x; } outer();''"

text \<open>Logical operators whose right operand is an undefined variable.\<close>

definition androt_program :: string where
  "androt_program = ''rott 0 androt y;''"

definition orrot_program :: string where
  "orrot_program = ''rott 1 orrot y;''"

text \<open>A loop whose condition stays truthy.\<close>

definition endless_program :: string where
  "endless_program = ''spin 1 { }''"

text \<open>A function declared by a call, then called by the caller.\<close>

definition declare_inside_program :: string where
  \<open>declare_inside_program = ''fnrot outer() { fnrot inner() { rott "in"; } } outer(); inner();''\<close>

text \<open>
  The interpreter as it is inside \<open>outer\<close> of \<open>nested_program\<close>, before the call of
  \<open>inner\<close>, and the rest of the body of \<open>outer\<close> from that call on.
\<close>

definition nested_state :: interpreter where
  "nested_state =
    \<lparr>variables = [''x'' \<mapsto> VNumber 1],
     function_table =
       [''inner'' \<mapsto> ([], [PrintStatement (Identifier ''x''),
                              VariableDeclaration ''x'' (Literal (VNumber 5))])],
     outputs = []\<rparr>"

text \<open>An interpreter in which \<open>outer\<close> is declared as in \<open>declare_inside_program\<close>.\<close>

definition declare_state :: interpreter where
  "declare_state =
    \<lparr>variables = Map.empty,
     function_table =
       [''outer'' \<mapsto>
          ([], [FunctionDeclaration ''inner'' [] [PrintStatement (Literal (VString ''in''))]])],
     outputs = []\<rparr>"

text \<open>A program that prints, then reads an undefined variable.\<close>

definition partial_output_program :: string where
  "partial_output_program = ''rott 1; rott y; rott 2;''"

text \<open>The tokens of \<open>missing_name_program\<close>.\<close>

definition missing_name_tokens :: "token list" where
  "missing_name_tokens = tokenize (new_tokenizer missing_name_program)"

text \<open>The result of a run that ends, with no output, at the undefined variable \<open>y\<close>.\<close>

definition undefined_y_error :: run_result where
  "undefined_y_error =
    \<lparr>result_output = [],
     result_error =
       Some \<lparr>message = ''Brain rot detected: Undefined variable: y'',
             eline = 0, ecolumn = 0, etype = RUNTIME\<rparr>\<rparr>"

text \<open>The result of a run that ends, with no output, at a unary expression.\<close>

definition unary_error :: run_result where
  "unary_error =
    \<lparr>result_output = [],
     result_error =
       Some \<lparr>message = ''Brain rot detected: Unknown expression type: UnaryExpression'',
             eline = 0, ecolumn = 0, etype = RUNTIME\<rparr>\<rparr>"


section \<open>Auxiliary facts\<close>

subsection \<open>Outcomes\<close>

lemma bind_eq_Inr:
  "bind r f = Some (Inr b, s') \<longleftrightarrow> (\<exists>a s. r = Some (Inr a, s) \<and> f a s = Some (Inr b, s'))"
  by (auto simp: bind_def split: option.splits sum.splits prod.splits)

lemma bind_eq_Some:
  "bind r f = Some x \<longleftrightarrow>
     (\<exists>e s. r = Some (Inl e, s) \<and> x = (Inl e, s)) \<or> (\<exists>a s. r = Some (Inr a, s) \<and> f a s = Some x)"
  by (auto simp: bind_def split: option.splits sum.splits prod.splits)

lemma return_eq [simp]: "return a s = Some x \<longleftrightarrow> x = (Inr a, s)"
  by (auto simp: return_def)

lemma throw_eq [simp]: "throw m s = Some x \<longleftrightarrow> x = (Inl m, s)"
  by (auto simp: throw_def)

subsection \<open>A call that returns\<close>

lemma evaluate_call_cases:
  assumes "evaluate n (CallExpression name args) st = Some (Inr v, st')"
  shows "\<exists>m f parameters body st1 st2.
           n = Suc m \<and> name = Some f \<and> function_table st f = Some (parameters, body)
           \<and> bind_parameters m parameters args st = Some (Inr (), st1)
           \<and> execute_body m body VUndefined st1 = Some (Inr v, st2)
           \<and> st' = st2\<lparr>variables := variables st\<rparr>"
proof (cases n)
  case 0
  with assms show ?thesis by simp
next
  case (Suc m)
  with assms show ?thesis
    by (auto simp: Let_def bind_eq_Inr split: option.splits)
qed



subsection \<open>The function table only grows\<close>

definition grows :: "interpreter \<Rightarrow> interpreter \<Rightarrow> bool" where
  "grows st st' \<longleftrightarrow> dom (function_table st) \<subseteq> dom (function_table st')"

lemma grows_refl [simp]: "grows st st"
  by (simp add: grows_def)

lemma grows_trans: "grows a b \<Longrightarrow> grows b c \<Longrightarrow> grows a c"
  by (auto simp: grows_def)

lemma grows_upd [simp]:
  "grows st (st\<lparr>variables := vs\<rparr>)" "grows st (st\<lparr>outputs := os\<rparr>)"
  "grows st (st\<lparr>function_table := (function_table st)(g \<mapsto> d)\<rparr>)"
  by (auto simp: grows_def)

lemma grows_upd_right:
  "grows st st' \<Longrightarrow> grows st (st'\<lparr>variables := vs\<rparr>)"
  "grows st st' \<Longrightarrow> grows st (st'\<lparr>outputs := os\<rparr>)"
  by (auto simp: grows_def)

lemma grows_upd_left:
  "grows (st\<lparr>variables := vs\<rparr>) st' \<Longrightarrow> grows st st'"
  by (auto simp: grows_def)

lemma binary_operation_state:
  "binary_operation operator l r st = Some (x, st') \<Longrightarrow> st' = st"
  by (auto simp: binary_operation_def host_result_def split: if_splits option.splits)

lemma table_grows_all:
  "(\<forall>node st x st'. execute n node st = Some (x, st') \<longrightarrow> grows st st')
   \<and> (\<forall>nodes st x st'. execute_all n nodes st = Some (x, st') \<longrightarrow> grows st st')
   \<and> (\<forall>c b st x st'. while_loop n c b st = Some (x, st') \<longrightarrow> grows st st')
   \<and> (\<forall>e st x st'. evaluate n e st = Some (x, st') \<longrightarrow> grows st st')
   \<and> (\<forall>ps args st x st'. bind_parameters n ps args st = Some (x, st') \<longrightarrow> grows st st')
   \<and> (\<forall>nodes r st x st'. execute_body n nodes r st = Some (x, st') \<longrightarrow> grows st st')"
proof (induction n)
  case 0
  show ?case by simp
next
  case (Suc n)
  have ex: "\<And>node st x st'. execute n node st = Some (x, st') \<Longrightarrow> grows st st'"
    using Suc by auto
  have ea: "\<And>nodes st x st'. execute_all n nodes st = Some (x, st') \<Longrightarrow> grows st st'"
    using Suc by auto
  have wl: "\<And>c b st x st'. while_loop n c b st = Some (x, st') \<Longrightarrow> grows st st'"
    using Suc by auto
  have ev: "\<And>e st x st'. evaluate n e st = Some (x, st') \<Longrightarrow> grows st st'"
    using Suc by auto
  have bp: "\<And>ps args st x st'. bind_parameters n ps args st = Some (x, st') \<Longrightarrow> grows st st'"
    using Suc by auto
  have eb: "\<And>nodes r st x st'. execute_body n nodes r st = Some (x, st') \<Longrightarrow> grows st st'"
    using Suc by auto
  have 1: "grows st st'" if "execute (Suc n) node st = Some (x, st')" for node st x st'
    using that
    by (cases node)
       ((auto simp: bind_eq_Some split: if_splits option.splits dest!: ex ea wl ev; blast intro: grows_trans grows_upd_right)+)
  have 2: "grows st st'" if "execute_all (Suc n) nodes st = Some (x, st')" for nodes st x st'
    using that
    by (cases nodes)
       ((auto simp: bind_eq_Some dest!: ex ea; blast intro: grows_trans)+)
  have 3: "grows st st'" if "while_loop (Suc n) c b st = Some (x, st')" for c b st x st'
    using that
    by ((auto simp: bind_eq_Some split: if_splits dest!: ev ea wl; blast intro: grows_trans)+)
  have 4: "grows st st'" if "evaluate (Suc n) e st = Some (x, st')" for e st x st'
    using that
    by (cases e)
       ((auto simp: bind_eq_Some Let_def split: if_splits option.splits
          dest!: ev bp eb binary_operation_state; blast intro: grows_trans grows_upd_right)+)
  have 5: "grows st st'" if "bind_parameters (Suc n) ps args st = Some (x, st')" for ps args st x st'
    using that
    by (cases ps; cases args)
       ((auto simp: bind_eq_Some dest!: ev bp; blast intro: grows_trans grows_upd_left)+)
  have 6: "grows st st'" if "execute_body (Suc n) nodes r st = Some (x, st')" for nodes r st x st'
    using that
    by (cases nodes)
       ((auto simp: bind_eq_Some dest!: ex eb; blast intro: grows_trans)+)
  from 1 2 3 4 5 6 show ?case by auto
qed

lemma bind_of_return [simp]: "bind (return a s) f = f a s"
  by (simp add: return_def)

lemma bind_of_throw [simp]: "bind (throw m s) f = Some (Inl m, s)"
  by (simp add: throw_def)

lemma bindE:
  assumes "bind r f = Some x"
  obtains (thrown) e s where "r = Some (Inl e, s)" "x = (Inl e, s)"
    | (returned) a s where "r = Some (Inr a, s)" "f a s = Some x"
  using assms by (auto simp: bind_eq_Some)

lemma host_result_Some: "host_result r st = Some x \<Longrightarrow> \<exists>v. r = Some v \<and> x = (Inr v, st)"
  by (auto simp: host_result_def split: option.splits)

subsection \<open>A larger bound changes no result\<close>

text \<open>
  A method that returns a result within the bound \<open>n\<close> returns the same result within every
  larger bound: the bound only decides whether the embedding follows a run to its end.
\<close>

lemma interpreter_mono_all:
  "n \<le> m \<Longrightarrow>
   (\<forall>node st r. execute n node st = Some r \<longrightarrow> execute m node st = Some r)
   \<and> (\<forall>nodes st r. execute_all n nodes st = Some r \<longrightarrow> execute_all m nodes st = Some r)
   \<and> (\<forall>c b st r. while_loop n c b st = Some r \<longrightarrow> while_loop m c b st = Some r)
   \<and> (\<forall>e st r. evaluate n e st = Some r \<longrightarrow> evaluate m e st = Some r)
   \<and> (\<forall>ps args st r. bind_parameters n ps args st = Some r
          \<longrightarrow> bind_parameters m ps args st = Some r)
   \<and> (\<forall>nodes v st r. execute_body n nodes v st = Some r
          \<longrightarrow> execute_body m nodes v st = Some r)"
proof (induction n arbitrary: m)
  case 0
  show ?case by simp
next
  case (Suc n)
  then obtain k where m: "m = Suc k" and le: "n \<le> k"
    by (cases m) auto
  note IH = Suc.IH [OF le]
  have ex: "\<And>node st r. execute n node st = Some r \<Longrightarrow> execute k node st = Some r"
    using IH by auto
  have ea: "\<And>nodes st r. execute_all n nodes st = Some r \<Longrightarrow> execute_all k nodes st = Some r"
    using IH by auto
  have wl: "\<And>c b st r. while_loop n c b st = Some r \<Longrightarrow> while_loop k c b st = Some r"
    using IH by auto
  have ev: "\<And>e st r. evaluate n e st = Some r \<Longrightarrow> evaluate k e st = Some r"
    using IH by auto
  have bp: "\<And>ps args st r. bind_parameters n ps args st = Some r
      \<Longrightarrow> bind_parameters k ps args st = Some r"
    using IH by auto
  have eb: "\<And>nodes v st r. execute_body n nodes v st = Some r
      \<Longrightarrow> execute_body k nodes v st = Some r"
    using IH by auto
  have 1: "execute (Suc k) node st = Some r" if "execute (Suc n) node st = Some r" for node st r
    using that
    by (cases node)
       (auto elim!: bindE dest!: ex ea wl ev split: if_splits option.splits)
  have 2: "execute_all (Suc k) nodes st = Some r" if "execute_all (Suc n) nodes st = Some r"
    for nodes st r
    using that by (cases nodes) (auto elim!: bindE dest!: ex ea)
  have 3: "while_loop (Suc k) c b st = Some r" if "while_loop (Suc n) c b st = Some r"
    for c b st r
    using that by (auto elim!: bindE dest!: ev ea wl split: if_splits)
  have 4: "evaluate (Suc k) e st = Some r" if "evaluate (Suc n) e st = Some r" for e st r
    using that
    by (cases e)
       (auto simp: Let_def elim!: bindE dest!: ev bp eb split: if_splits option.splits)
  have 5: "bind_parameters (Suc k) ps args st = Some r"
    if "bind_parameters (Suc n) ps args st = Some r" for ps args st r
    using that by (cases ps; cases args) (auto elim!: bindE dest!: ev bp)
  have 6: "execute_body (Suc k) nodes v st = Some r"
    if "execute_body (Suc n) nodes v st = Some r" for nodes v st r
    using that by (cases nodes) (auto elim!: bindE dest!: ex eb)
  from 1 2 3 4 5 6 show ?case
    unfolding m by auto
qed


lemma binary_loop_mono:
  assumes "n \<le> m" and "\<And>p r. operand p = Some r \<Longrightarrow> operand' p = Some r"
    and "binary_loop n matches operand e p = Some r"
  shows "binary_loop m matches operand' e p = Some r"
  using assms(1,3)
proof (induction n arbitrary: m e p)
  case 0
  then show ?case by simp
next
  case (Suc n)
  then obtain k where m: "m = Suc k" and le: "n \<le> k"
    by (cases m) auto
  note IH = Suc.IH [OF le]
  from Suc.prems(2) show ?case
    unfolding m
    by (auto elim!: bindE dest!: assms(2) IH split: if_splits)
qed

lemma expression_mono_all:
  "n \<le> m \<Longrightarrow>
   (\<forall>p r. expression n p = Some r \<longrightarrow> expression m p = Some r)
   \<and> (\<forall>p r. logicalOr n p = Some r \<longrightarrow> logicalOr m p = Some r)
   \<and> (\<forall>p r. logicalAnd n p = Some r \<longrightarrow> logicalAnd m p = Some r)
   \<and> (\<forall>p r. equality n p = Some r \<longrightarrow> equality m p = Some r)
   \<and> (\<forall>p r. comparison n p = Some r \<longrightarrow> comparison m p = Some r)
   \<and> (\<forall>p r. term_expr n p = Some r \<longrightarrow> term_expr m p = Some r)
   \<and> (\<forall>p r. factor n p = Some r \<longrightarrow> factor m p = Some r)
   \<and> (\<forall>p r. unary n p = Some r \<longrightarrow> unary m p = Some r)
   \<and> (\<forall>p r. call n p = Some r \<longrightarrow> call m p = Some r)
   \<and> (\<forall>p r. primary n p = Some r \<longrightarrow> primary m p = Some r)
   \<and> (\<forall>e p r. call_loop n e p = Some r \<longrightarrow> call_loop m e p = Some r)
   \<and> (\<forall>e p r. finishCall n e p = Some r \<longrightarrow> finishCall m e p = Some r)
   \<and> (\<forall>args p r. arguments_loop n args p = Some r \<longrightarrow> arguments_loop m args p = Some r)"
proof (induction n arbitrary: m)
  case 0
  show ?case by simp
next
  case (Suc n)
  then obtain k where m: "m = Suc k" and le: "n \<le> k"
    by (cases m) auto
  note IH = Suc.IH [OF le]
  have expression: "\<And>p r. expression n p = Some r \<Longrightarrow> expression k p = Some r"
    using IH by auto
  have logicalOr: "\<And>p r. logicalOr n p = Some r \<Longrightarrow> logicalOr k p = Some r"
    using IH by auto
  have logicalAnd: "\<And>p r. logicalAnd n p = Some r \<Longrightarrow> logicalAnd k p = Some r"
    using IH by auto
  have equality: "\<And>p r. equality n p = Some r \<Longrightarrow> equality k p = Some r"
    using IH by auto
  have comparison: "\<And>p r. comparison n p = Some r \<Longrightarrow> comparison k p = Some r"
    using IH by auto
  have term_expr: "\<And>p r. term_expr n p = Some r \<Longrightarrow> term_expr k p = Some r"
    using IH by auto
  have factor: "\<And>p r. factor n p = Some r \<Longrightarrow> factor k p = Some r"
    using IH by auto
  have unary: "\<And>p r. unary n p = Some r \<Longrightarrow> unary k p = Some r"
    using IH by auto
  have call: "\<And>p r. call n p = Some r \<Longrightarrow> call k p = Some r"
    using IH by auto
  have primary: "\<And>p r. primary n p = Some r \<Longrightarrow> primary k p = Some r"
    using IH by auto
  have call_loop: "\<And>e p r. call_loop n e p = Some r \<Longrightarrow> call_loop k e p = Some r"
    using IH by auto
  have finishCall: "\<And>e p r. finishCall n e p = Some r \<Longrightarrow> finishCall k e p = Some r"
    using IH by auto
  have arguments_loop: "\<And>args p r. arguments_loop n args p = Some r \<Longrightarrow> arguments_loop k args p = Some r"
    using IH by auto
  have bl_logicalAnd: "\<And>matches e p r. binary_loop n matches (\<lambda>p. logicalAnd n p) e p = Some r
      \<Longrightarrow> binary_loop k matches (\<lambda>p. logicalAnd k p) e p = Some r"
    by (erule binary_loop_mono [OF le, rotated]) (rule logicalAnd)
  have bl_equality: "\<And>matches e p r. binary_loop n matches (\<lambda>p. equality n p) e p = Some r
      \<Longrightarrow> binary_loop k matches (\<lambda>p. equality k p) e p = Some r"
    by (erule binary_loop_mono [OF le, rotated]) (rule equality)
  have bl_comparison: "\<And>matches e p r. binary_loop n matches (\<lambda>p. comparison n p) e p = Some r
      \<Longrightarrow> binary_loop k matches (\<lambda>p. comparison k p) e p = Some r"
    by (erule binary_loop_mono [OF le, rotated]) (rule comparison)
  have bl_term_expr: "\<And>matches e p r. binary_loop n matches (\<lambda>p. term_expr n p) e p = Some r
      \<Longrightarrow> binary_loop k matches (\<lambda>p. term_expr k p) e p = Some r"
    by (erule binary_loop_mono [OF le, rotated]) (rule term_expr)
  have bl_factor: "\<And>matches e p r. binary_loop n matches (\<lambda>p. factor n p) e p = Some r
      \<Longrightarrow> binary_loop k matches (\<lambda>p. factor k p) e p = Some r"
    by (erule binary_loop_mono [OF le, rotated]) (rule factor)
  have bl_unary: "\<And>matches e p r. binary_loop n matches (\<lambda>p. unary n p) e p = Some r
      \<Longrightarrow> binary_loop k matches (\<lambda>p. unary k p) e p = Some r"
    by (erule binary_loop_mono [OF le, rotated]) (rule unary)
  have s1: "expression (Suc k) p = Some r" if "expression (Suc n) p = Some r" for p r
    using that
    by (auto elim!: bindE dest!: expression logicalOr logicalAnd equality comparison term_expr factor unary call primary call_loop finishCall arguments_loop bl_logicalAnd bl_equality bl_comparison bl_term_expr bl_factor bl_unary split: if_splits option.splits)
  have s2: "logicalOr (Suc k) p = Some r" if "logicalOr (Suc n) p = Some r" for p r
    using that
    by (auto elim!: bindE dest!: expression logicalOr logicalAnd equality comparison term_expr factor unary call primary call_loop finishCall arguments_loop bl_logicalAnd bl_equality bl_comparison bl_term_expr bl_factor bl_unary split: if_splits option.splits)
  have s3: "logicalAnd (Suc k) p = Some r" if "logicalAnd (Suc n) p = Some r" for p r
    using that
    by (auto elim!: bindE dest!: expression logicalOr logicalAnd equality comparison term_expr factor unary call primary call_loop finishCall arguments_loop bl_logicalAnd bl_equality bl_comparison bl_term_expr bl_factor bl_unary split: if_splits option.splits)
  have s4: "equality (Suc k) p = Some r" if "equality (Suc n) p = Some r" for p r
    using that
    by (auto elim!: bindE dest!: expression logicalOr logicalAnd equality comparison term_expr factor unary call primary call_loop finishCall arguments_loop bl_logicalAnd bl_equality bl_comparison bl_term_expr bl_factor bl_unary split: if_splits option.splits)
  have s5: "comparison (Suc k) p = Some r" if "comparison (Suc n) p = Some r" for p r
    using that
    by (auto elim!: bindE dest!: expression logicalOr logicalAnd equality comparison term_expr factor unary call primary call_loop finishCall arguments_loop bl_logicalAnd bl_equality bl_comparison bl_term_expr bl_factor bl_unary split: if_splits option.splits)
  have s6: "term_expr (Suc k) p = Some r" if "term_expr (Suc n) p = Some r" for p r
    using that
    by (auto elim!: bindE dest!: expression logicalOr logicalAnd equality comparison term_expr factor unary call primary call_loop finishCall arguments_loop bl_logicalAnd bl_equality bl_comparison bl_term_expr bl_factor bl_unary split: if_splits option.splits)
  have s7: "factor (Suc k) p = Some r" if "factor (Suc n) p = Some r" for p r
    using that
    by (auto elim!: bindE dest!: expression logicalOr logicalAnd equality comparison term_expr factor unary call primary call_loop finishCall arguments_loop bl_logicalAnd bl_equality bl_comparison bl_term_expr bl_factor bl_unary split: if_splits option.splits)
  have s8: "unary (Suc k) p = Some r" if "unary (Suc n) p = Some r" for p r
    using that
    by (auto elim!: bindE dest!: expression logicalOr logicalAnd equality comparison term_expr factor unary call primary call_loop finishCall arguments_loop bl_logicalAnd bl_equality bl_comparison bl_term_expr bl_factor bl_unary split: if_splits option.splits)
  have s9: "call (Suc k) p = Some r" if "call (Suc n) p = Some r" for p r
    using that
    by (auto elim!: bindE dest!: expression logicalOr logicalAnd equality comparison term_expr factor unary call primary call_loop finishCall arguments_loop bl_logicalAnd bl_equality bl_comparison bl_term_expr bl_factor bl_unary split: if_splits option.splits)
  have s10: "primary (Suc k) p = Some r" if "primary (Suc n) p = Some r" for p r
    using that
    by (auto elim!: bindE dest!: expression logicalOr logicalAnd equality comparison term_expr factor unary call primary call_loop finishCall arguments_loop bl_logicalAnd bl_equality bl_comparison bl_term_expr bl_factor bl_unary split: if_splits option.splits)
  have s11: "call_loop (Suc k) e p = Some r" if "call_loop (Suc n) e p = Some r" for e p r
    using that
    by (auto elim!: bindE dest!: expression logicalOr logicalAnd equality comparison term_expr factor unary call primary call_loop finishCall arguments_loop bl_logicalAnd bl_equality bl_comparison bl_term_expr bl_factor bl_unary split: if_splits option.splits)
  have s12: "finishCall (Suc k) e p = Some r" if "finishCall (Suc n) e p = Some r" for e p r
    using that
    by (auto elim!: bindE dest!: expression logicalOr logicalAnd equality comparison term_expr factor unary call primary call_loop finishCall arguments_loop bl_logicalAnd bl_equality bl_comparison bl_term_expr bl_factor bl_unary split: if_splits option.splits)
  have s13: "arguments_loop (Suc k) args p = Some r" if "arguments_loop (Suc n) args p = Some r" for args p r
    using that
    by (auto elim!: bindE dest!: expression logicalOr logicalAnd equality comparison term_expr factor unary call primary call_loop finishCall arguments_loop bl_logicalAnd bl_equality bl_comparison bl_term_expr bl_factor bl_unary split: if_splits option.splits)
  from s1 s2 s3 s4 s5 s6 s7 s8 s9 s10 s11 s12 s13 show ?case
    unfolding m by auto
qed



lemma expression_mono:
  assumes "n \<le> m" and "expression n p = Some r"
  shows "expression m p = Some r"
  using expression_mono_all [OF assms(1)] assms(2) by (cases r) auto

lemma parameters_loop_mono:
  "n \<le> m \<Longrightarrow> parameters_loop n ps p = Some r \<Longrightarrow> parameters_loop m ps p = Some r"
proof (induction n arbitrary: m ps p)
  case 0
  then show ?case by simp
next
  case (Suc n)
  then obtain k where m: "m = Suc k" and le: "n \<le> k"
    by (cases m) auto
  note IH = Suc.IH [OF le]
  from Suc.prems(2) show ?case
    unfolding m
    by (auto elim!: bindE dest!: IH split: if_splits)
qed

lemma statement_mono_all:
  "n \<le> m \<Longrightarrow>
   (\<forall>p r. statement n p = Some r \<longrightarrow> statement m p = Some r)
   \<and> (\<forall>p r. variableDeclaration n p = Some r \<longrightarrow> variableDeclaration m p = Some r)
   \<and> (\<forall>p r. printStatement n p = Some r \<longrightarrow> printStatement m p = Some r)
   \<and> (\<forall>p r. whileLoop n p = Some r \<longrightarrow> whileLoop m p = Some r)
   \<and> (\<forall>p r. ifStatement n p = Some r \<longrightarrow> ifStatement m p = Some r)
   \<and> (\<forall>p r. functionDeclaration n p = Some r \<longrightarrow> functionDeclaration m p = Some r)
   \<and> (\<forall>body p r. block_loop n body p = Some r \<longrightarrow> block_loop m body p = Some r)"
proof (induction n arbitrary: m)
  case 0
  show ?case by simp
next
  case (Suc n)
  then obtain k where m: "m = Suc k" and le: "n \<le> k"
    by (cases m) auto
  note IH = Suc.IH [OF le]
  note expr = expression_mono [OF le]
  note pl = parameters_loop_mono [OF le]
  have statement: "\<And>p r. statement n p = Some r \<Longrightarrow> statement k p = Some r"
    using IH by auto
  have variableDeclaration: "\<And>p r. variableDeclaration n p = Some r \<Longrightarrow> variableDeclaration k p = Some r"
    using IH by auto
  have printStatement: "\<And>p r. printStatement n p = Some r \<Longrightarrow> printStatement k p = Some r"
    using IH by auto
  have whileLoop: "\<And>p r. whileLoop n p = Some r \<Longrightarrow> whileLoop k p = Some r"
    using IH by auto
  have ifStatement: "\<And>p r. ifStatement n p = Some r \<Longrightarrow> ifStatement k p = Some r"
    using IH by auto
  have functionDeclaration: "\<And>p r. functionDeclaration n p = Some r \<Longrightarrow> functionDeclaration k p = Some r"
    using IH by auto
  have block_loop: "\<And>body p r. block_loop n body p = Some r \<Longrightarrow> block_loop k body p = Some r"
    using IH by auto
  have s1: "statement (Suc k) p = Some r" if "statement (Suc n) p = Some r" for p r
    using that
    by (auto elim!: bindE dest!: statement variableDeclaration printStatement whileLoop ifStatement functionDeclaration block_loop expr pl split: if_splits option.splits)
  have s2: "variableDeclaration (Suc k) p = Some r" if "variableDeclaration (Suc n) p = Some r" for p r
    using that
    by (auto elim!: bindE dest!: statement variableDeclaration printStatement whileLoop ifStatement functionDeclaration block_loop expr pl split: if_splits option.splits)
  have s3: "printStatement (Suc k) p = Some r" if "printStatement (Suc n) p = Some r" for p r
    using that
    by (auto elim!: bindE dest!: statement variableDeclaration printStatement whileLoop ifStatement functionDeclaration block_loop expr pl split: if_splits option.splits)
  have s4: "whileLoop (Suc k) p = Some r" if "whileLoop (Suc n) p = Some r" for p r
    using that
    by (auto elim!: bindE dest!: statement variableDeclaration printStatement whileLoop ifStatement functionDeclaration block_loop expr pl split: if_splits option.splits)
  have s5: "ifStatement (Suc k) p = Some r" if "ifStatement (Suc n) p = Some r" for p r
    using that
    by (auto elim!: bindE dest!: statement variableDeclaration printStatement whileLoop ifStatement functionDeclaration block_loop expr pl split: if_splits option.splits)
  have s6: "functionDeclaration (Suc k) p = Some r" if "functionDeclaration (Suc n) p = Some r" for p r
    using that
    by (auto elim!: bindE dest!: statement variableDeclaration printStatement whileLoop ifStatement functionDeclaration block_loop expr pl split: if_splits option.splits)
  have s7: "block_loop (Suc k) body p = Some r" if "block_loop (Suc n) body p = Some r" for body p r
    using that
    by (auto elim!: bindE dest!: statement variableDeclaration printStatement whileLoop ifStatement functionDeclaration block_loop expr pl split: if_splits option.splits)
  from s1 s2 s3 s4 s5 s6 s7 show ?case
    unfolding m by auto
qed

lemma statement_mono:
  assumes "n \<le> m" and "statement n p = Some r"
  shows "statement m p = Some r"
  using statement_mono_all [OF assms(1)] assms(2) by (cases r) auto

lemma synchronize_loop_mono:
  "n \<le> m \<Longrightarrow> synchronize_loop n p = Some r \<Longrightarrow> synchronize_loop m p = Some r"
proof (induction n arbitrary: m p)
  case 0
  then show ?case by simp
next
  case (Suc n)
  then obtain k where m: "m = Suc k" and le: "n \<le> k"
    by (cases m) auto
  note IH = Suc.IH [OF le]
  from Suc.prems(2) show ?case
    unfolding m
    by (auto elim!: bindE dest!: IH split: if_splits)
qed

lemma synchronize_mono:
  assumes "n \<le> m" and "synchronize n p = Some r"
  shows "synchronize m p = Some r"
  using assms(2)
  by (auto simp: synchronize_def elim!: bindE dest!: synchronize_loop_mono [OF assms(1)])

lemma parse_loop_mono:
  "n \<le> m \<Longrightarrow> parse_loop n ss p = Some r \<Longrightarrow> parse_loop m ss p = Some r"
proof (induction n arbitrary: m ss p)
  case 0
  then show ?case by simp
next
  case (Suc n)
  then obtain k where m: "m = Suc k" and le: "n \<le> k"
    by (cases m) auto
  note IH = Suc.IH [OF le]
  from Suc.prems(2) show ?case
    unfolding m
    by (auto elim!: bindE dest!: IH statement_mono [OF le] synchronize_mono [OF le]
        split: if_splits option.splits sum.splits prod.splits)
qed

lemma parse_mono:
  assumes "n \<le> m" and "parse n p = Some r"
  shows "parse m p = Some r"
  using assms(2) by (simp add: parse_def parse_loop_mono [OF assms(1)])

lemma execute_all_mono:
  assumes "n \<le> m" and "execute_all n nodes st = Some r"
  shows "execute_all m nodes st = Some r"
  using interpreter_mono_all [OF assms(1)] assms(2) by (cases r) auto

lemma evaluate_mono:
  assumes "n \<le> m" and "evaluate n e st = Some r"
  shows "evaluate m e st = Some r"
  using interpreter_mono_all [OF assms(1)] assms(2) by (cases r) auto

lemma interpret_ast_mono:
  assumes "n \<le> m" and "interpret_ast n ast st = Some r"
  shows "interpret_ast m ast st = Some r"
  using assms(2)
  by (auto simp: interpret_ast_def split: option.splits sum.splits prod.splits
      dest!: execute_all_mono [OF assms(1)])

lemma executeBrainRot_mono:
  assumes "n \<le> m" and "executeBrainRot n code = Some r"
  shows "executeBrainRot m code = Some r"
  using assms(2)
  by (auto simp: executeBrainRot_def Let_def split: option.splits sum.splits prod.splits
      dest!: parse_mono [OF assms(1)] interpret_ast_mono [OF assms(1)])

subsection \<open>Results of statements and of the entry point\<close>

lemma execute_body_last:
  "execute_body n body r st = Some (Inr v, st') \<Longrightarrow>
     (body = [] \<and> v = r \<and> st' = st)
     \<or> (body \<noteq> [] \<and> (\<exists>k s. execute k (last body) s = Some (Inr v, st')))"
proof (induction n arbitrary: body r st)
  case 0
  then show ?case by simp
next
  case (Suc n)
  show ?case
  proof (cases body)
    case Nil
    with Suc.prems show ?thesis by simp
  next
    case (Cons node rest)
    with Suc.prems obtain w s1 where
      ex: "execute n node st = Some (Inr w, s1)" and
      eb: "execute_body n rest w s1 = Some (Inr v, st')"
      by (auto simp: bind_eq_Inr)
    from Suc.IH [OF eb] show ?thesis
    proof
      assume "rest = [] \<and> v = w \<and> st' = s1"
      with ex Cons show ?thesis by auto
    next
      assume "rest \<noteq> [] \<and> (\<exists>k s. execute k (last rest) s = Some (Inr v, st'))"
      with Cons show ?thesis by auto
    qed
  qed
qed

lemma result_shape:
  "executeBrainRot n code = Some r \<Longrightarrow>
     (case result_error r of
        None \<Rightarrow> True
      | Some e \<Rightarrow> eline e = 0 \<and> ecolumn e = 0 \<and> (etype e = SYNTAX \<or> etype e = RUNTIME))"
  by (auto simp: executeBrainRot_def interpret_ast_def Let_def
      split: option.splits sum.splits prod.splits)

lemma logical_eager:
  "(evaluate n l st = Some (Inr lv, st1) \<and> evaluate n r st1 = Some (Inr rv, st2) \<longrightarrow>
      evaluate (Suc n) (BinaryExpression ''ANDROT'' l r) st
        = Some (Inr (VBoolean (isTruthy lv \<and> isTruthy rv)), st2)
      \<and> evaluate (Suc n) (BinaryExpression ''ORROT'' l r) st
        = Some (Inr (VBoolean (isTruthy lv \<or> isTruthy rv)), st2))
   \<and> (evaluate n l st = Some (Inr lv, st1) \<and> evaluate n r st1 = Some (Inl msg, st2) \<longrightarrow>
      evaluate (Suc n) (BinaryExpression operator l r) st = Some (Inl msg, st2))"
  by (simp add: binary_operation_def return_def)

lemma logical_both:
  assumes "evaluate k (BinaryExpression operator l r) st = Some (Inr v, st')"
    and "operator = ''ANDROT'' \<or> operator = ''ORROT''"
  shows "\<exists>n lv st1 rv. k = Suc n \<and> evaluate n l st = Some (Inr lv, st1)
           \<and> evaluate n r st1 = Some (Inr rv, st')
           \<and> v = VBoolean (if operator = ''ANDROT'' then isTruthy lv \<and> isTruthy rv
                             else isTruthy lv \<or> isTruthy rv)"
proof (cases k)
  case 0
  with assms show ?thesis by simp
next
  case (Suc n)
  with assms show ?thesis
    by (auto simp: bind_eq_Inr binary_operation_def)
qed

lemma execute_value:
  assumes "execute k node s = Some (Inr v, s')"
  shows "case node of
           VariableDeclaration x e \<Rightarrow>
             (\<exists>j s0. evaluate j e s = Some (Inr v, s0)) \<and> variables s' x = Some v
         | PrintStatement e \<Rightarrow>
             (\<exists>j s0. evaluate j e s = Some (Inr v, s0)) \<and> outputs s' \<noteq> []
             \<and> last (outputs s') = to_string v
         | WhileLoop c b \<Rightarrow> v = VNull
         | IfStatement c t e \<Rightarrow> v = VNull
         | FunctionDeclaration g ps b \<Rightarrow> v = VNull
         | ExpressionStatement e \<Rightarrow> (\<exists>j. evaluate j e s = Some (Inr v, s'))"
proof (cases k)
  case 0
  with assms show ?thesis by simp
next
  case (Suc j)
  with assms show ?thesis
    by (cases node) (auto simp: bind_eq_Inr split: if_splits option.splits)
qed

lemma body_after_call:
  assumes "execute_body n (ExpressionStatement (CallExpression name args) # rest) r st
             = Some (Inr v, st')"
  shows "\<exists>m w st1. Suc (Suc m) = n
           \<and> evaluate m (CallExpression name args) st = Some (Inr w, st1)
           \<and> variables st1 = variables st
           \<and> execute_body (Suc m) rest w st1 = Some (Inr v, st')"
proof (cases n)
  case 0
  with assms show ?thesis by simp
next
  case (Suc k)
  with assms obtain w st1 where
    ex: "execute k (ExpressionStatement (CallExpression name args)) st = Some (Inr w, st1)" and
    eb: "execute_body k rest w st1 = Some (Inr v, st')"
    by (auto simp: bind_eq_Inr)
  from ex obtain m where k: "k = Suc m"
    by (cases k) auto
  with ex have ev: "evaluate m (CallExpression name args) st = Some (Inr w, st1)"
    by simp
  from evaluate_call_cases [OF ev] have "variables st1 = variables st"
    by auto
  with ev eb k Suc show ?thesis by auto
qed

subsection \<open>Declarations in a called body\<close>

lemma execute_grows: "execute n node st = Some (x, st') \<Longrightarrow> grows st st'"
  using table_grows_all [of n] by auto

lemma execute_body_grows: "execute_body n nodes r st = Some (x, st') \<Longrightarrow> grows st st'"
  using table_grows_all [of n] by auto

lemma evaluate_grows: "evaluate n e st = Some (x, st') \<Longrightarrow> grows st st'"
  using table_grows_all [of n] by auto

lemma declaration_in_body:
  "execute_body n (pre @ FunctionDeclaration g ps b # post) r st = Some (Inr v, st') \<Longrightarrow>
     function_table st' g \<noteq> None"
proof (induction pre arbitrary: n r st)
  case Nil
  then obtain m w s1 where n: "n = Suc m"
    and ex: "execute m (FunctionDeclaration g ps b) st = Some (Inr w, s1)"
    and eb: "execute_body m post w s1 = Some (Inr v, st')"
    by (cases n) (auto simp: bind_eq_Inr)
  from ex have "function_table s1 g \<noteq> None"
    by (cases m) auto
  moreover from eb have "grows s1 st'"
    by (rule execute_body_grows)
  ultimately show ?case
    by (auto simp: grows_def)
next
  case (Cons node pre)
  then obtain m w s1 where n: "n = Suc m"
    and eb: "execute_body m (pre @ FunctionDeclaration g ps b # post) w s1 = Some (Inr v, st')"
    by (cases n) (auto simp: bind_eq_Inr)
  from Cons.IH [OF eb] show ?case .
qed

lemma call_keeps_declaration:
  assumes "evaluate n (CallExpression (Some f) args) st = Some (Inr v, st')"
    and "function_table st f = Some (parameters, pre @ FunctionDeclaration g ps b # post)"
  shows "function_table st' g \<noteq> None"
proof -
  from evaluate_call_cases [OF assms(1)] assms(2) obtain m st1 st2 where
    b: "execute_body m (pre @ FunctionDeclaration g ps b # post) VUndefined st1 = Some (Inr v, st2)"
    and st': "st' = st2\<lparr>variables := variables st\<rparr>"
    by auto
  from declaration_in_body [OF b] st' show ?thesis by simp
qed

subsection \<open>Recovery\<close>

text \<open>
  Where \<open>synchronize\<close> stops: at the end of the tokens, at a token with the text of a
  statement keyword, or right after a token with the text \<open>SEMICOLON\<close>.
\<close>

definition synchronized :: "parser \<Rightarrow> bool" where
  "synchronized p \<longleftrightarrow>
     (case p_peek p of
        None \<Rightarrow> False
      | Some token \<Rightarrow>
          ttype token = EOF \<or> tvalue token \<in> set [''MOLD'', ''ROTT'', ''SPIN'', ''IFROT'', ''FNROT''])
     \<or> (case p_previous p of None \<Rightarrow> False | Some token \<Rightarrow> tvalue token = ''SEMICOLON'')"

lemma p_isAtEnd_peek:
  "p_peek p = Some token \<Longrightarrow> p_isAtEnd p = return (ttype token = EOF) p"
  by (simp add: p_isAtEnd_def)

lemma p_isAtEnd_undefined:
  "p_peek p = None \<Longrightarrow> p_isAtEnd p = throw (type_error ''type'') p"
  by (simp add: p_isAtEnd_def)

lemma p_advance_peek:
  assumes "p_peek p = Some token"
  shows "p_advance p =
           (if ttype token = EOF then return (p_previous p) p
            else return (p_previous (p\<lparr>p_position := p_position p + 1\<rparr>))
                   (p\<lparr>p_position := p_position p + 1\<rparr>))"
  by (simp add: p_advance_def p_isAtEnd_peek [OF assms] Let_def)

lemma p_advance_Inr:
  assumes "p_advance p = Some (Inr a, p')"
  shows "tokens p' = tokens p
         \<and> (\<exists>token. p_peek p = Some token
              \<and> p_position p' = (if ttype token = EOF then p_position p else p_position p + 1))"
proof (cases "p_peek p")
  case None
  with assms show ?thesis
    by (simp add: p_advance_def p_isAtEnd_undefined)
next
  case (Some token)
  with assms show ?thesis
    by (auto simp: p_advance_peek split: if_splits)
qed

lemma synchronize_loop_stops:
  "synchronize_loop n p = Some (Inr u, p') \<Longrightarrow>
     tokens p' = tokens p \<and> p_position p \<le> p_position p' \<and> synchronized p'"
proof (induction n arbitrary: p)
  case 0
  then show ?case by simp
next
  case (Suc n)
  note run = Suc.prems
  show ?case
  proof (cases "p_peek p")
    case None
    with run show ?thesis
      by (simp add: p_isAtEnd_undefined)
  next
    case (Some token)
    note peek = Some
    show ?thesis
    proof (cases "ttype token = EOF")
      case True
      with run peek have "p' = p"
        by (simp add: p_isAtEnd_peek)
      with peek True show ?thesis
        by (simp add: synchronized_def)
    next
      case False
      note more = False
      show ?thesis
      proof (cases "p_previous p")
        case None
        with run peek more show ?thesis
          by (simp add: p_isAtEnd_peek value_of_def)
      next
        case (Some passed)
        note prev = Some
        show ?thesis
        proof (cases "tvalue passed = ''SEMICOLON''
            \<or> tvalue token \<in> set [''MOLD'', ''ROTT'', ''SPIN'', ''IFROT'', ''FNROT'']")
          case True
          with run peek more prev have "p' = p"
            by (auto simp: p_isAtEnd_peek value_of_def split: if_splits)
          with peek prev True show ?thesis
            by (auto simp: synchronized_def)
        next
          case False
          let ?p1 = "p\<lparr>p_position := p_position p + 1\<rparr>"
          from run peek more prev False have "synchronize_loop n ?p1 = Some (Inr u, p')"
            by (simp add: p_isAtEnd_peek value_of_def p_advance_peek)
          from Suc.IH [OF this] show ?thesis
            by simp
        qed
      qed
    qed
  qed
qed

lemma synchronize_stops:
  assumes "synchronize n p = Some (Inr u, p')"
  shows "tokens p' = tokens p \<and> p_position p \<le> p_position p' \<and> synchronized p'
         \<and> (p_isAtEnd p = return False p \<longrightarrow> p_position p < p_position p')"
proof -
  from assms obtain a p1 where adv: "p_advance p = Some (Inr a, p1)"
    and loop: "synchronize_loop n p1 = Some (Inr u, p')"
    by (auto simp: synchronize_def bind_eq_Inr)
  from p_advance_Inr [OF adv] synchronize_loop_stops [OF loop] show ?thesis
    by (auto simp: p_isAtEnd_def return_def split: if_splits)
qed

lemma parse_loop_recovers:
  assumes "p_isAtEnd p = return False p" and "statement n p = Some (Inl msg, p1)"
    and "synchronize n p1 = Some (Inr u, p2)"
  shows "parse_loop (Suc n) statements p = parse_loop n statements p2"
  using assms by (simp add: return_def)

subsection \<open>A loop that never ends\<close>

lemma while_true_never_returns:
  "while_loop n (Literal (VNumber 1)) [] st = None"
proof (induction n)
  case 0
  show ?case by simp
next
  case (Suc n)
  show ?case
  proof (cases n)
    case 0
    then show ?thesis by simp
  next
    case (Suc m)
    with Suc.IH show ?thesis by simp
  qed
qed

lemma endless_parse:
  "map_option fst (parse 30 (new_parser (tokenize (new_tokenizer endless_program))))
     = Some (Inr [WhileLoop (Literal (VNumber 1)) []])"
  by code_simp

lemma endless_never_returns: "executeBrainRot n endless_program = None"
proof -
  let ?p = "new_parser (tokenize (new_tokenizer endless_program))"
  from endless_parse obtain p' where
    p30: "parse 30 ?p = Some (Inr [WhileLoop (Literal (VNumber 1)) []], p')"
    by (cases "parse 30 ?p") auto
  have run: "execute_all n [WhileLoop (Literal (VNumber 1)) []] st = None" for st
  proof (cases n)
    case 0
    then show ?thesis by simp
  next
    case (Suc k)
    then show ?thesis
      by (cases k) (simp_all add: while_true_never_returns)
  qed
  have "parse n ?p = None \<or> parse n ?p = Some (Inr [WhileLoop (Literal (VNumber 1)) []], p')"
  proof (cases "parse n ?p")
    case None
    then show ?thesis by simp
  next
    case (Some r)
    show ?thesis
    proof (cases "n \<le> 30")
      case True
      from parse_mono [OF True Some] p30 Some show ?thesis by simp
    next
      case False
      then have "30 \<le> n" by simp
      from parse_mono [OF this p30] show ?thesis by simp
    qed
  qed
  then show ?thesis
    by (auto simp: executeBrainRot_def Let_def interpret_ast_def run)
qed

subsection \<open>Runs of the programs\<close>

text \<open>
  Each run below is evaluated at one bound; by \<open>executeBrainRot_mono\<close> the result is the
  same at every larger bound.
\<close>

lemma rollback_state_call:
  "evaluate (Suc (Suc (Suc (Suc (Suc (Suc 0)))))) (CallExpression (Some ''f'') []) rollback_state
     = Some (Inr (VNumber 99), rollback_state\<lparr>outputs := [''99'']\<rparr>)"
proof -
  have s: "to_string (VNumber 99) = ''99''"
    by code_simp
  have f: "function_table rollback_state ''f''
      = Some ([], [VariableDeclaration ''a'' (Literal (VNumber 99)),
                   PrintStatement (Identifier ''a'')])"
    and o: "outputs rollback_state = []"
    by (simp_all add: rollback_state_def)
  show ?thesis
    by (simp add: f o s del: to_string.simps)
qed

lemma rollback_program_run:
  "executeBrainRot 30 rollback_program = Some \<lparr>result_output = [''1''], result_error = None\<rparr>"
  by code_simp

lemma notrot_program_runs:
  "executeBrainRot 30 notrot_zero_program = Some unary_error"
  "executeBrainRot 30 notrot_empty_program = Some unary_error"
  "executeBrainRot 30 notrot_one_program = Some unary_error"
  by code_simp+

lemma fibonacci_program_run:
  "executeBrainRot 100 fibonacci_program
     = Some \<lparr>result_output = concat (map fib_lines [0..<8]), result_error = None\<rparr>"
  by code_simp

lemma fibonacci_lines:
  "length (concat (map fib_lines [0..<8])) = 100"
  "take 9 (concat (map fib_lines [0..<8]))
     = [''0'', ''1'', ''1'', ''0'', ''0'', ''1'', ''0'', ''0'', ''1'']"
  by code_simp+

lemma declaration_state_call:
  "evaluate (Suc (Suc (Suc (Suc 0)))) (CallExpression (Some ''f'') []) declaration_state
     = Some (Inr (VNumber 99), declaration_state)"
proof -
  have f: "function_table declaration_state ''f''
      = Some ([], [VariableDeclaration ''a'' (Literal (VNumber 99))])"
    by (simp add: declaration_state_def)
  show ?thesis
    by (simp add: f)
qed

lemma declaration_program_run:
  "executeBrainRot 30 declaration_program = Some \<lparr>result_output = [''99''], result_error = None\<rparr>"
  by code_simp

lemma nested_state_body:
  "execute_body (Suc (Suc (Suc (Suc (Suc (Suc (Suc 0)))))))
     [ExpressionStatement (CallExpression (Some ''inner'') []), PrintStatement (Identifier ''x'')]
     VUndefined nested_state
   = Some (Inr (VNumber 1), nested_state\<lparr>outputs := [''1'', ''1'']\<rparr>)"
proof -
  have s: "to_string (VNumber 1) = ''1''"
    by code_simp
  have f: "function_table nested_state ''inner''
      = Some ([], [PrintStatement (Identifier ''x''),
                   VariableDeclaration ''x'' (Literal (VNumber 5))])"
    and o: "outputs nested_state = []"
    and x: "variables nested_state ''x'' = Some (VNumber 1)"
    by (simp_all add: nested_state_def)
  show ?thesis
    by (simp add: f o x s del: to_string.simps)
qed

lemma nested_state_call:
  "evaluate (Suc (Suc (Suc (Suc (Suc 0))))) (CallExpression (Some ''inner'') []) nested_state
   = Some (Inr (VNumber 5), nested_state\<lparr>outputs := [''1'']\<rparr>)"
proof -
  have s: "to_string (VNumber 1) = ''1''"
    by code_simp
  have f: "function_table nested_state ''inner''
      = Some ([], [PrintStatement (Identifier ''x''),
                   VariableDeclaration ''x'' (Literal (VNumber 5))])"
    and o: "outputs nested_state = []"
    and x: "variables nested_state ''x'' = Some (VNumber 1)"
    by (simp_all add: nested_state_def)
  show ?thesis
    by (simp add: f o x s del: to_string.simps)
qed

lemma nested_program_runs:
  "executeBrainRot 40 nested_program = Some \<lparr>result_output = [''1'', ''1''], result_error = None\<rparr>"
  "executeBrainRot 40 nested_write_program = Some \<lparr>result_output = [''1''], result_error = None\<rparr>"
  by code_simp+

lemma logical_program_runs:
  "executeBrainRot 30 androt_program     = Some undefined_y_error"
  "executeBrainRot 30 orrot_program     = Some undefined_y_error"
  by code_simp+

lemma partial_output_run:
  "executeBrainRot 30 partial_output_program
     = Some \<lparr>result_output = [''1''],
              result_error = Some \<lparr>message = ''Brain rot detected: Undefined variable: y'',
                                   eline = 0, ecolumn = 0, etype = RUNTIME\<rparr>\<rparr>"
  by code_simp

lemma declare_state_call:
  "evaluate (Suc (Suc (Suc 0))) (CallExpression (Some ''outer'') []) declare_state
   = Some (Inr VNull,
       declare_state\<lparr>function_table := (function_table declare_state)
         (''inner'' \<mapsto> ([], [PrintStatement (Literal (VString ''in''))]))\<rparr>)"
proof -
  have f: "function_table declare_state ''outer''
      = Some ([], [FunctionDeclaration ''inner'' [] [PrintStatement (Literal (VString ''in''))]])"
    by (simp add: declare_state_def)
  show ?thesis
    by (simp add: f)
qed

lemma declare_inside_run:
  "executeBrainRot 30 declare_inside_program = Some \<lparr>result_output = [''in''], result_error = None\<rparr>"
  by code_simp

lemma missing_name_recovery:
  "p_isAtEnd (new_parser missing_name_tokens) = return False (new_parser missing_name_tokens)"
  "statement 20 (new_parser missing_name_tokens)
     = Some (Inl ''Expected variable name at line 1, column 6'',
             \<lparr>tokens = missing_name_tokens, p_position = 1\<rparr>)"
  "synchronize 20 \<lparr>tokens = missing_name_tokens, p_position = 1\<rparr>
     = Some (Inr (), \<lparr>tokens = missing_name_tokens, p_position = 4\<rparr>)"
  "p_isAtEnd \<lparr>tokens = missing_name_tokens, p_position = 1\<rparr>
     = return False \<lparr>tokens = missing_name_tokens, p_position = 1\<rparr>"
  by code_simp+

lemma missing_programs_run:
  "executeBrainRot 30 missing_name_program = Some \<lparr>result_output = [''ok''], result_error = None\<rparr>"
  "executeBrainRot 30 missing_semicolon_program = Some \<lparr>result_output = [], result_error = None\<rparr>"
  by code_simp+

lemma print_then_undefined:
  "execute_all (Suc (Suc (Suc (Suc 0))))
     [PrintStatement (Literal (VNumber 1)), PrintStatement (Identifier ''y'')]
     (new_interpreter\<lparr>outputs := []\<rparr>)
   = Some (Inl ''Undefined variable: y'', new_interpreter\<lparr>outputs := [''1'']\<rparr>)"
proof -
  have s: "to_string (VNumber 1) = ''1''"
    by code_simp
  show ?thesis
    by (simp add: new_interpreter_def s throw_def del: to_string.simps)
qed

lemma logical_operands:
  "evaluate (Suc 0) (Literal (VNumber 0)) new_interpreter = Some (Inr (VNumber 0), new_interpreter)"
  "evaluate (Suc 0) (Literal (VString ''x'')) new_interpreter
     = Some (Inr (VString ''x''), new_interpreter)"
  "evaluate (Suc 0) (Identifier ''y'') new_interpreter
     = Some (Inl ''Undefined variable: y'', new_interpreter)"
  by (simp_all add: new_interpreter_def return_def throw_def)

section \<open>Properties\<close>

subsection \<open>The tokenizer\<close>

text \<open>
  C9. \<open>tokenize\<close> is a total function that returns a token list: no path of the
  tokenizer throws. For every input string the token list holds exactly one \<open>EOF\<close>
  token, which is its last element and has the empty text. A character that starts no
  token (not a digit, a quote, a letter, an underscore or an operator character) is
  passed over by \<open>nextToken\<close>, which returns no token for it.
\<close>

theorem tokenize_single_EOF:
  "length (filter (\<lambda>k. ttype k = EOF) (tokenize (new_tokenizer src))) = 1
   \<and> ttype (last (tokenize (new_tokenizer src))) = EOF
   \<and> tvalue (last (tokenize (new_tokenizer src))) = []
   \<and> (peek t 0 = Some c \<and> \<not> is_digit c \<and> c \<noteq> CHR 0x22 \<and> c \<noteq> CHR 0x27
        \<and> \<not> is_alpha c \<and> map_of operators c = None
      \<longrightarrow> nextToken t = (None, advance t))"
proof -
  have "filter (\<lambda>k. ttype k = EOF) (fst (tokenize_loop (new_tokenizer src) [])) = []"
    using tokenize_loop_no_EOF [of "[]" "new_tokenizer src"] by (simp add: filter_empty_conv)
  then have "length (filter (\<lambda>k. ttype k = EOF) (tokenize (new_tokenizer src))) = 1
     \<and> ttype (last (tokenize (new_tokenizer src))) = EOF
     \<and> tvalue (last (tokenize (new_tokenizer src))) = []"
    by (simp add: tokenize_def Let_def)
  moreover have "peek t 0 = Some c \<and> \<not> is_digit c \<and> c \<noteq> CHR 0x22 \<and> c \<noteq> CHR 0x27
        \<and> \<not> is_alpha c \<and> map_of operators c = None
      \<longrightarrow> nextToken t = (None, advance t)"
    by (auto simp: nextToken_def Let_def operators_def)
  ultimately show ?thesis by blast
qed

theorem tokenize_single_EOF_witness:
  "length (filter (\<lambda>k. ttype k = EOF) (tokenize (new_tokenizer ''mold x @ 42;''))) = 1
   \<and> ttype (last (tokenize (new_tokenizer ''mold x @ 42;''))) = EOF
   \<and> tvalue (last (tokenize (new_tokenizer ''mold x @ 42;''))) = []
   \<and> peek (new_tokenizer ''@ 42;'') 0 = Some (CHR ''@'')
   \<and> nextToken (new_tokenizer ''@ 42;'') = (None, advance (new_tokenizer ''@ 42;''))"
proof -
  have hyp: "peek (new_tokenizer ''@ 42;'') 0 = Some (CHR ''@'') \<and> \<not> is_digit (CHR ''@'')
      \<and> CHR ''@'' \<noteq> CHR 0x22 \<and> CHR ''@'' \<noteq> CHR 0x27
      \<and> \<not> is_alpha (CHR ''@'') \<and> map_of operators (CHR ''@'') = None"
    by (simp add: peek_def new_tokenizer_def is_digit_def is_alpha_def between_def operators_def)
  show ?thesis
    using tokenize_single_EOF [of "''mold x @ 42;''" "new_tokenizer ''@ 42;''" "CHR ''@''"] hyp
    by blast
qed

subsection \<open>Calls and the variable map\<close>

text \<open>
  C1. A call expression that returns leaves the variable map as it was when the call
  began: whatever the arguments and the body declared or overwrote is gone. The program
  \<open>mold a = 1; fnrot f() { mold a = 99; } f(); rott a;\<close> prints the one line \<open>1\<close>.
\<close>

theorem call_restores_variables:
  "(evaluate n (CallExpression name args) st = Some (Inr v, st') \<longrightarrow> variables st' = variables st)
   \<and> (30 \<le> k \<longrightarrow>
        executeBrainRot k rollback_program = Some \<lparr>result_output = [''1''], result_error = None\<rparr>)"
proof (intro conjI impI)
  assume "evaluate n (CallExpression name args) st = Some (Inr v, st')"
  then show "variables st' = variables st"
    by (auto dest!: evaluate_call_cases)
next
  assume "30 \<le> k"
  then show "executeBrainRot k rollback_program
      = Some \<lparr>result_output = [''1''], result_error = None\<rparr>"
    using rollback_program_run by (rule executeBrainRot_mono)
qed

theorem call_restores_variables_witness:
  "evaluate (Suc (Suc (Suc (Suc (Suc (Suc 0)))))) (CallExpression (Some ''f'') []) rollback_state
     = Some (Inr (VNumber 99), rollback_state\<lparr>outputs := [''99'']\<rparr>)
   \<and> variables (rollback_state\<lparr>outputs := [''99'']\<rparr>) = variables rollback_state
   \<and> variables rollback_state ''a'' = Some (VNumber 1)
   \<and> (30::nat) \<le> 30
   \<and> executeBrainRot 30 rollback_program = Some \<lparr>result_output = [''1''], result_error = None\<rparr>"
proof -
  have a: "variables rollback_state ''a'' = Some (VNumber 1)"
    by (simp add: rollback_state_def)
  have k: "(30::nat) \<le> 30"
    by simp
  from call_restores_variables
         [of "Suc (Suc (Suc (Suc (Suc (Suc 0)))))" "Some ''f''" "[]" rollback_state "VNumber 99"
             "rollback_state\<lparr>outputs := [''99'']\<rparr>" 30]
       rollback_state_call a k
  show ?thesis by blast
qed

subsection \<open>Unary expressions\<close>

text \<open>
  C2. \<open>evaluate\<close> has no case for a unary expression: the node the parser builds for
  \<open>!\<close>, \<open>notrot\<close> and unary \<open>-\<close> falls to the default case, which throws. Each of the
  three programs of the truthiness test ends with the runtime error
  \<open>Unknown expression type: UnaryExpression\<close> and prints nothing.
\<close>

theorem unary_expression_throws:
  "evaluate (Suc n) (UnaryExpression operator operand) st
     = Some (Inl ''Unknown expression type: UnaryExpression'', st)
   \<and> (30 \<le> k \<longrightarrow>
        executeBrainRot k notrot_zero_program = Some unary_error
        \<and> executeBrainRot k notrot_empty_program = Some unary_error
        \<and> executeBrainRot k notrot_one_program = Some unary_error)"
  using notrot_program_runs [THEN executeBrainRot_mono [rotated]]
  by (simp add: throw_def)

theorem unary_expression_throws_witness:
  "(30::nat) \<le> 30
   \<and> executeBrainRot 30 notrot_zero_program = Some unary_error
   \<and> executeBrainRot 30 notrot_empty_program = Some unary_error
   \<and> executeBrainRot 30 notrot_one_program = Some unary_error
   \<and> result_output unary_error = []"
proof -
  have k: "(30::nat) \<le> 30"
    by simp
  have o: "result_output unary_error = []"
    by (simp add: unary_error_def)
  from unary_expression_throws [of 0 "''NOTROT''" "Literal (VNumber 0)" new_interpreter 30] k o
  show ?thesis by blast
qed

subsection \<open>The fibonacci example\<close>

text \<open>
  C3. The example program \<open>fibonacci\<close> prints 100 lines, not the eight Fibonacci numbers.
  The body of \<open>fib\<close> is one conditional, whose result is \<open>null\<close>, so every call \<open>fib(n)\<close>
  returns \<open>null\<close>; for \<open>n\<close> of 2 or more it prints the lines of its two inner calls and then
  \<open>null + null\<close>, which is 0.
\<close>

theorem fibonacci_program_output:
  "100 \<le> k \<longrightarrow>
     executeBrainRot k fibonacci_program
       = Some \<lparr>result_output = concat (map fib_lines [0..<8]), result_error = None\<rparr>
     \<and> length (concat (map fib_lines [0..<8])) = 100
     \<and> take 9 (concat (map fib_lines [0..<8]))
         = [''0'', ''1'', ''1'', ''0'', ''0'', ''1'', ''0'', ''0'', ''1'']"
  using fibonacci_program_run [THEN executeBrainRot_mono [rotated]] fibonacci_lines
  by simp

theorem fibonacci_program_output_witness:
  "(100::nat) \<le> 100
   \<and> executeBrainRot 100 fibonacci_program
       = Some \<lparr>result_output = concat (map fib_lines [0..<8]), result_error = None\<rparr>
   \<and> length (concat (map fib_lines [0..<8])) = 100
   \<and> take 9 (concat (map fib_lines [0..<8]))
       = [''0'', ''1'', ''1'', ''0'', ''0'', ''1'', ''0'', ''0'', ''1'']"
proof -
  have k: "(100::nat) \<le> 100"
    by simp
  from fibonacci_program_output [of 100] k
  show ?thesis by blast
qed

subsection \<open>The result of a call\<close>

text \<open>
  C4, as the code has it. The result of a call that returns is the result of \<open>execute\<close>
  for the last statement of the body of the function, and \<open>undefined\<close> when the body is
  empty. That result is the value assigned for a variable declaration, the value printed
  for a print statement, the value of the expression for an expression statement, and
  \<open>null\<close> for a loop, a conditional and a function declaration.
\<close>

theorem call_result_is_last_statement:
  assumes "evaluate n (CallExpression name args) st = Some (Inr v, st')"
  shows "\<exists>f parameters body.
           name = Some f \<and> function_table st f = Some (parameters, body)
           \<and> (if body = [] then v = VUndefined
               else \<exists>k s s'. execute k (last body) s = Some (Inr v, s')
                 \<and> (case last body of
                       VariableDeclaration x e \<Rightarrow>
                         (\<exists>j s0. evaluate j e s = Some (Inr v, s0)) \<and> variables s' x = Some v
                     | PrintStatement e \<Rightarrow>
                         (\<exists>j s0. evaluate j e s = Some (Inr v, s0)) \<and> outputs s' \<noteq> []
                         \<and> last (outputs s') = to_string v
                     | WhileLoop c b \<Rightarrow> v = VNull
                     | IfStatement c t e \<Rightarrow> v = VNull
                     | FunctionDeclaration g ps b \<Rightarrow> v = VNull
                     | ExpressionStatement e \<Rightarrow> (\<exists>j. evaluate j e s = Some (Inr v, s'))))"
proof -
  from evaluate_call_cases [OF assms] obtain m f parameters body st1 st2 where
    f: "name = Some f" "function_table st f = Some (parameters, body)" and
    b: "execute_body m body VUndefined st1 = Some (Inr v, st2)"
    by blast
  show ?thesis
  proof (cases "body = []")
    case True
    with execute_body_last [OF b] f show ?thesis by auto
  next
    case False
    with execute_body_last [OF b] obtain k s where
      e: "execute k (last body) s = Some (Inr v, st2)"
      by blast
    from execute_value [OF e] e f False show ?thesis
      by (intro exI conjI) auto
  qed
qed

theorem call_result_is_last_statement_witness:
  "evaluate (Suc (Suc (Suc (Suc 0)))) (CallExpression (Some ''f'') []) declaration_state
     = Some (Inr (VNumber 99), declaration_state)
   \<and> (\<exists>f parameters body.
         Some ''f'' = Some f \<and> function_table declaration_state f = Some (parameters, body)
         \<and> (if body = [] then VNumber 99 = VUndefined
             else \<exists>k s s'. execute k (last body) s = Some (Inr (VNumber 99), s')
               \<and> (case last body of
                     VariableDeclaration x e \<Rightarrow>
                       (\<exists>j s0. evaluate j e s = Some (Inr (VNumber 99), s0))
                       \<and> variables s' x = Some (VNumber 99)
                   | PrintStatement e \<Rightarrow>
                       (\<exists>j s0. evaluate j e s = Some (Inr (VNumber 99), s0)) \<and> outputs s' \<noteq> []
                       \<and> last (outputs s') = to_string (VNumber 99)
                   | WhileLoop c b \<Rightarrow> VNumber 99 = VNull
                   | IfStatement c t e \<Rightarrow> VNumber 99 = VNull
                   | FunctionDeclaration g ps b \<Rightarrow> VNumber 99 = VNull
                   | ExpressionStatement e \<Rightarrow>
                       (\<exists>j. evaluate j e s = Some (Inr (VNumber 99), s')))))"
  by (intro conjI)
     (rule declaration_state_call, rule call_result_is_last_statement [OF declaration_state_call])

text \<open>
  C4 as stated fails: the call of a function whose body ends in the declaration
  \<open>mold a = 99;\<close> yields 99, not \<open>undefined\<close>, and printing it gives the line \<open>99\<close>.
\<close>

theorem declaration_result_counterexample:
  "evaluate (Suc (Suc (Suc (Suc 0)))) (CallExpression (Some ''f'') []) declaration_state
     = Some (Inr (VNumber 99), declaration_state)
   \<and> VNumber 99 \<noteq> VUndefined
   \<and> executeBrainRot 30 declaration_program
     = Some \<lparr>result_output = [''99''], result_error = None\<rparr>"
  using declaration_state_call declaration_program_run by simp

subsection \<open>Recovery from a malformed statement\<close>

text \<open>
  C5, as the code has it. When \<open>statement\<close> throws, \<open>parse\<close> drops the exception and the
  statement, and goes on from where \<open>synchronize\<close> stops: \<open>synchronize\<close> moves over the
  token at which the failure was detected, whatever it is, and then on to the end of the
  tokens, to a token with the text of a statement keyword, or past a token with the text
  \<open>SEMICOLON\<close>. The declaration without a name, \<open>mold = 5;\<close>, fails at \<open>=\<close>, recovery
  stops after its semicolon, and the following \<open>rott "ok";\<close> runs.
\<close>

theorem parse_recovers_after_failure:
  "(p_isAtEnd p = return False p \<and> statement n p = Some (Inl msg, p1)
      \<and> synchronize n p1 = Some (Inr u, p2) \<longrightarrow>
      parse_loop (Suc n) statements p = parse_loop n statements p2
      \<and> tokens p2 = tokens p1 \<and> p_position p1 \<le> p_position p2 \<and> synchronized p2
      \<and> (p_isAtEnd p1 = return False p1 \<longrightarrow> p_position p1 < p_position p2))
   \<and> (30 \<le> k \<longrightarrow>
        executeBrainRot k missing_name_program
          = Some \<lparr>result_output = [''ok''], result_error = None\<rparr>)"
  using parse_loop_recovers [of p n msg p1 u p2 statements] synchronize_stops [of n p1 u p2]
    missing_programs_run(1) [THEN executeBrainRot_mono [rotated]]
  by blast

theorem parse_recovers_after_failure_witness:
  "p_isAtEnd (new_parser missing_name_tokens) = return False (new_parser missing_name_tokens)
   \<and> statement 20 (new_parser missing_name_tokens)
     = Some (Inl ''Expected variable name at line 1, column 6'',
             \<lparr>tokens = missing_name_tokens, p_position = 1\<rparr>)
   \<and> synchronize 20 \<lparr>tokens = missing_name_tokens, p_position = 1\<rparr>
     = Some (Inr (), \<lparr>tokens = missing_name_tokens, p_position = 4\<rparr>)
   \<and> p_isAtEnd \<lparr>tokens = missing_name_tokens, p_position = 1\<rparr>
     = return False \<lparr>tokens = missing_name_tokens, p_position = 1\<rparr>
   \<and> parse_loop (Suc 20) [] (new_parser missing_name_tokens)
     = parse_loop 20 [] \<lparr>tokens = missing_name_tokens, p_position = 4\<rparr>
   \<and> p_position \<lparr>tokens = missing_name_tokens, p_position = 1\<rparr>
     < p_position \<lparr>tokens = missing_name_tokens, p_position = 4\<rparr>
   \<and> synchronized \<lparr>tokens = missing_name_tokens, p_position = 4\<rparr>
   \<and> (30::nat) \<le> 30
   \<and> executeBrainRot 30 missing_name_program
     = Some \<lparr>result_output = [''ok''], result_error = None\<rparr>"
proof -
  have k: "(30::nat) \<le> 30"
    by simp
  from parse_recovers_after_failure
         [of "new_parser missing_name_tokens" 20 "''Expected variable name at line 1, column 6''"
             "\<lparr>tokens = missing_name_tokens, p_position = 1\<rparr>" "()"
             "\<lparr>tokens = missing_name_tokens, p_position = 4\<rparr>" "[]" 30]
       missing_name_recovery k
  show ?thesis by blast
qed

text \<open>
  C5 as stated fails on its own example. In \<open>mold x = 5 rott "ok";\<close> the missing semicolon
  is detected at the token \<open>rott\<close>; \<open>synchronize\<close> moves over that token first, finds no
  statement keyword after it and stops at the end of the tokens. No statement is left, and
  the run prints nothing and reports no error.
\<close>

theorem missing_semicolon_counterexample:
  "executeBrainRot 30 missing_semicolon_program
     = Some \<lparr>result_output = [], result_error = None\<rparr>
   \<and> [] \<noteq> [''ok'']"
  using missing_programs_run(2) by simp

subsection \<open>Nested calls\<close>

text \<open>
  C6, as the code has it. Every call, inner or outer, restores at its return the variable
  map as it was when that call began. A call inside the body of a function starts from
  the variable map the body has built so far, so the inner function reads the variables of
  the enclosing call; what the inner call declared or overwrote is gone when the next
  statement of the enclosing body runs. In \<open>nested_program\<close> the inner function prints the
  \<open>x\<close> of the outer one, 1, sets \<open>x\<close> to 5, and the outer function then prints 1 again.
\<close>

theorem inner_call_restores_variables:
  "(execute_body n (ExpressionStatement (CallExpression name args) # rest) r st
      = Some (Inr v, st') \<longrightarrow>
      (\<exists>m w st1. Suc (Suc m) = n
         \<and> evaluate m (CallExpression name args) st = Some (Inr w, st1)
         \<and> variables st1 = variables st
         \<and> execute_body (Suc m) rest w st1 = Some (Inr v, st')))
   \<and> (40 \<le> k \<longrightarrow>
        executeBrainRot k nested_program
          = Some \<lparr>result_output = [''1'', ''1''], result_error = None\<rparr>)"
  using body_after_call [of n name args rest r st v st']
    nested_program_runs(1) [THEN executeBrainRot_mono [rotated]]
  by blast

theorem inner_call_restores_variables_witness:
  "execute_body (Suc (Suc (Suc (Suc (Suc (Suc (Suc 0)))))))
     [ExpressionStatement (CallExpression (Some ''inner'') []), PrintStatement (Identifier ''x'')]
     VUndefined nested_state
     = Some (Inr (VNumber 1), nested_state\<lparr>outputs := [''1'', ''1'']\<rparr>)
   \<and> (\<exists>m w st1. Suc (Suc m) = Suc (Suc (Suc (Suc (Suc (Suc (Suc 0))))))
         \<and> evaluate m (CallExpression (Some ''inner'') []) nested_state = Some (Inr w, st1)
         \<and> variables st1 = variables nested_state
         \<and> execute_body (Suc m) [PrintStatement (Identifier ''x'')] w st1
             = Some (Inr (VNumber 1), nested_state\<lparr>outputs := [''1'', ''1'']\<rparr>))
   \<and> (40::nat) \<le> 40
   \<and> executeBrainRot 40 nested_program
     = Some \<lparr>result_output = [''1'', ''1''], result_error = None\<rparr>"
proof -
  have k: "(40::nat) \<le> 40"
    by simp
  from inner_call_restores_variables
         [of "Suc (Suc (Suc (Suc (Suc (Suc (Suc 0))))))" "Some ''inner''" "[]"
             "[PrintStatement (Identifier ''x'')]" VUndefined nested_state "VNumber 1"
             "nested_state\<lparr>outputs := [''1'', ''1'']\<rparr>" 40]
       nested_state_body k
  show ?thesis by blast
qed

text \<open>
  C6 as stated fails: were the variables of an inner call visible to the enclosing body
  after the inner call returned, \<open>nested_write_program\<close>, whose inner function sets \<open>x\<close> to
  5 before the outer one prints \<open>x\<close>, would print 5. It prints 1.
\<close>

theorem nested_call_counterexample:
  "executeBrainRot 40 nested_write_program
     = Some \<lparr>result_output = [''1''], result_error = None\<rparr>
   \<and> [''1''] \<noteq> [''5'']"
  using nested_program_runs(2) by simp

end
